theory Spec2Isabelle
  imports Complex_Main "HOL-Library.AList" "HOL-Library.Word"
begin

section \<open>Strings\<close>

text \<open>
  A JavaScript string is modelled by the bytes of its UTF-8 encoding (a \<open>char list\<close>).
  The text of a parsed source file is always a well-formed string, and on well-formed
  strings the operations used by \<^verbatim>\<open>src/index.ts\<close> (\<^verbatim>\<open>startsWith\<close>, \<^verbatim>\<open>endsWith\<close>, \<^verbatim>\<open>includes\<close>,
  \<^verbatim>\<open>lastIndexOf\<close> followed by \<^verbatim>\<open>slice\<close>, \<^verbatim>\<open>replace\<close> of one ASCII character) give the same
  answer on the encoding as on the UTF-16 code units.
\<close>

definition startsWith :: "string \<Rightarrow> string \<Rightarrow> bool" where
  "startsWith s p = (take (length p) s = p)"

definition endsWith :: "string \<Rightarrow> string \<Rightarrow> bool" where
  "endsWith s p = (length p \<le> length s \<and> drop (length s - length p) s = p)"

fun str_includes :: "string \<Rightarrow> string \<Rightarrow> bool" where
  "str_includes [] p = (p = [])"
| "str_includes (c # s) p = (startsWith (c # s) p \<or> str_includes s p)"

text \<open>\<^verbatim>\<open>s.lastIndexOf(p)\<close>: the greatest index where \<open>p\<close> occurs, or \<open>-1\<close>.\<close>

fun lastIndexOf :: "string \<Rightarrow> string \<Rightarrow> int" where
  "lastIndexOf [] p = (if p = [] then 0 else - 1)"
| "lastIndexOf (c # s) p =
     (let r = lastIndexOf s p
      in if 0 \<le> r then r + 1 else if startsWith (c # s) p then 0 else - 1)"

text \<open>\<^verbatim>\<open>s.slice(i)\<close>: a negative start counts from the end.\<close>

definition str_slice :: "string \<Rightarrow> int \<Rightarrow> string" where
  "str_slice s i = (if i < 0 then drop (nat (int (length s) + i)) s else drop (nat i) s)"

text \<open>\<^verbatim>\<open>s.replace(/\\/g, "/")\<close>: every backslash (byte 0x5C) becomes a slash.\<close>

definition replaceBackslashes :: "string \<Rightarrow> string" where
  "replaceBackslashes s = map (\<lambda>c. if c = CHR 0x5C then CHR ''/'' else c) s"

text \<open>\<^verbatim>\<open>s.trim()\<close>, for the white space of ASCII (what \<^verbatim>\<open>git\<close> ends its output with).\<close>

definition isSpace :: "char \<Rightarrow> bool" where
  "isSpace c = (c = CHR '' '' \<or> c = CHR 0x09 \<or> c = CHR 0x0A \<or> c = CHR 0x0B
                \<or> c = CHR 0x0C \<or> c = CHR 0x0D)"

definition trim :: "string \<Rightarrow> string" where
  "trim s = rev (dropWhile isSpace (rev (dropWhile isSpace s)))"

section \<open>The data model\<close>

subsection \<open>What the parser hands over (ts-morph)\<close>

text \<open>
  A declaration node as the scan looks at it: its syntax kind with the name the kind
  carries (\<^verbatim>\<open>getName()\<close> may be undefined for a function or a class, never for a variable or
  a method), \<^verbatim>\<open>isExported()\<close> for a function or a class, and for a variable the value of
  \<^verbatim>\<open>getFirstAncestorByKind(VariableStatement)?.isExported()\<close> (\<open>None\<close> when there is no such
  ancestor).
\<close>

datatype SyntaxKind =
    FunctionDeclaration "string option" bool
  | ClassDeclaration "string option" bool
  | VariableDeclaration string "bool option"
  | MethodDeclaration string
  | OtherNode

type_synonym ReferenceEntry = "string \<times> nat"

record Node =
  syntaxKind :: SyntaxKind
  findReferences :: "ReferenceEntry list list"
  getText :: string
  getStartLineNumber :: nat
  getEndLineNumber :: nat

record SourceFile =
  getFilePath :: string
  getDirectoryPath :: string
  getImportDeclarations :: "string list"
  getExportedDeclarations :: "(string \<times> Node list) list"
  forEachDescendant :: "Node list"
  getFullText :: string

record Project =
  getSourceFiles :: "SourceFile list"
  getSourceFile :: "string \<Rightarrow> SourceFile option"

subsection \<open>The archived record\<close>

datatype ItemType = File | Function | Method | Variable | Class

datatype Reason = unreachable_file | no_refs | compiler_unused

datatype Language = lang_ts | lang_js

record Position =
  line :: nat
  col :: nat

record Range =
  range_start :: Position
  range_end :: Position

datatype ContentKind = kind_text

record Content =
  kind :: ContentKind
  base64 :: string

record ArchiveItem =
  createdAt :: int
  expiresAt :: int
  repo :: string
  commit :: string
  language :: Language
  itemType :: ItemType
  name :: "string option"
  path :: string
  itemRange :: "Range option"
  reason :: Reason
  confidence :: rat
  references :: "(string \<times> nat) list"
  content :: Content
  itemNote :: "string option"

text \<open>An entry of the \<^verbatim>\<open>unusedSymbols\<close> array of \<^verbatim>\<open>scanCommand\<close>.\<close>

record UnusedSymbol =
  symNode :: Node
  symFile :: SourceFile
  symType :: ItemType
  symName :: string
  symReason :: Reason
  symConfidence :: rat

text \<open>
  The options of \<^verbatim>\<open>ck scan\<close> and \<^verbatim>\<open>ck restore\<close> as commander passes them. A confidence is
  the number a literal such as \<^verbatim>\<open>0.95\<close> or the argument of \<^verbatim>\<open>--confidence\<close> stands for; the scan
  only compares confidences.
\<close>

record ScanOptions =
  opt_project :: string
  opt_entry :: "string list"
  opt_mongo :: string
  opt_db :: string
  opt_apply :: bool
  opt_report :: bool
  opt_confidence :: rat
  opt_srcDir :: string

record RestoreOptions =
  ropt_output :: "string option"
  ropt_mongo :: string
  ropt_db :: string

section \<open>Helpers of \<^verbatim>\<open>src/index.ts\<close>\<close>

definition norm_path :: "SourceFile \<Rightarrow> string" where
  "norm_path sf = replaceBackslashes (getFilePath sf)"

definition rel :: "SourceFile \<Rightarrow> string \<Rightarrow> string" where
  "rel sf srcDir =
     (let p = norm_path sf; i = lastIndexOf p (''/'' @ srcDir @ ''/'')
      in if 0 \<le> i then str_slice p (i + 1) else p)"

definition defaultEntrypoints :: "SourceFile list \<Rightarrow> string \<Rightarrow> string list" where
  "defaultEntrypoints files srcDir =
     filter (\<lambda>p. \<exists>f \<in> set files. rel f srcDir = p)
       [srcDir @ ''/index.ts'', srcDir @ ''/index.tsx'', srcDir @ ''/main.ts'',
        srcDir @ ''/main.tsx'', srcDir @ ''/app.tsx'', srcDir @ ''/App.tsx'']"

text \<open>
  The regular expression of \<^verbatim>\<open>isDefinitelyKeep\<close> is not anchored, so \<^verbatim>\<open>test\<close> asks whether one of
  the alternatives occurs somewhere in the path; an optional trailing \<^verbatim>\<open>x?\<close> never changes
  that answer.
\<close>

definition isDefinitelyKeep :: "SourceFile \<Rightarrow> bool" where
  "isDefinitelyKeep sf =
     (let p = norm_path sf
      in str_includes p ''.d.ts'' \<or> str_includes p ''.types.ts''
         \<or> str_includes p ''.stories.ts'' \<or> str_includes p ''.test.ts''
         \<or> str_includes p ''__mocks__'' \<or> str_includes p ''.config.ts''
         \<or> str_includes p ''.config.js'')"

text \<open>
  \<^verbatim>\<open>new Map(entries)\<close>: a key keeps the position of its first entry and the value of its last.
\<close>

definition Map_of_entries :: "('k \<times> 'v) list \<Rightarrow> ('k \<times> 'v) list" where
  "Map_of_entries es = foldl (\<lambda>m (k, v). AList.update k v m) [] es"

definition tryPaths :: "string \<Rightarrow> string list" where
  "tryPaths spec =
     [spec, spec @ ''.ts'', spec @ ''.tsx'', spec @ ''.js'', spec @ ''.jsx'',
      spec @ ''/index.ts'', spec @ ''/index.tsx'']"

text \<open>The inner loop of \<^verbatim>\<open>resolveImport\<close>: the first entry whose key ends with the path.\<close>

fun firstEndingWith :: "string \<Rightarrow> (string \<times> SourceFile) list \<Rightarrow> SourceFile option" where
  "firstEndingWith a [] = None"
| "firstEndingWith a ((k, v) # m) = (if endsWith k a then Some v else firstEndingWith a m)"

text \<open>The outer loop: the candidates in order, the first hit returns.\<close>

fun resolveCandidates ::
  "string \<Rightarrow> string list \<Rightarrow> (string \<times> SourceFile) list \<Rightarrow> SourceFile option" where
  "resolveCandidates dir [] m = None"
| "resolveCandidates dir (t # ts) m =
     (case firstEndingWith (replaceBackslashes (dir @ ''/'' @ t)) m of
        Some v \<Rightarrow> Some v
      | None \<Rightarrow> resolveCandidates dir ts m)"

definition resolveImport ::
  "SourceFile \<Rightarrow> string \<Rightarrow> (string \<times> SourceFile) list \<Rightarrow> SourceFile option" where
  "resolveImport from_sf spec m =
     (if startsWith spec ''.'' \<or> startsWith spec ''/''
      then resolveCandidates (getDirectoryPath from_sf) (tryPaths spec) m
      else None)"

definition nodeType :: "Node \<Rightarrow> ItemType" where
  "nodeType n =
     (case syntaxKind n of
        FunctionDeclaration _ _ \<Rightarrow> Function
      | MethodDeclaration _ \<Rightarrow> Method
      | VariableDeclaration _ _ \<Rightarrow> Variable
      | ClassDeclaration _ _ \<Rightarrow> Class
      | OtherNode \<Rightarrow> Variable)"

text \<open>\<^verbatim>\<open>n.getName() || "<anonymous>"\<close>: an undefined and an empty name both give the default.\<close>

definition orAnonymous :: "string option \<Rightarrow> string" where
  "orAnonymous nm = (case nm of None \<Rightarrow> ''<anonymous>'' | Some s \<Rightarrow> if s = [] then ''<anonymous>'' else s)"

definition readableName :: "Node \<Rightarrow> string" where
  "readableName n =
     (case syntaxKind n of
        FunctionDeclaration nm _ \<Rightarrow> orAnonymous nm
      | ClassDeclaration nm _ \<Rightarrow> orAnonymous nm
      | VariableDeclaration nm _ \<Rightarrow> nm
      | MethodDeclaration nm \<Rightarrow> nm
      | OtherNode \<Rightarrow> ''<unknown>'')"

definition toRange :: "Node \<Rightarrow> Range" where
  "toRange n =
     \<lparr>range_start = \<lparr>line = getStartLineNumber n, col = 0\<rparr>,
      range_end = \<lparr>line = getEndLineNumber n, col = 0\<rparr>\<rparr>"

definition getLanguage :: "SourceFile \<Rightarrow> Language" where
  "getLanguage sf =
     (if endsWith (getFilePath sf) ''.ts'' \<or> endsWith (getFilePath sf) ''.tsx''
      then lang_ts else lang_js)"

section \<open>The analysis of \<^verbatim>\<open>scanCommand\<close>\<close>

text \<open>Lines 91 to 95: the files under the source directory, and the map from path to file.\<close>

definition scannedFiles :: "Project \<Rightarrow> string \<Rightarrow> SourceFile list" where
  "scannedFiles project srcDir =
     filter (\<lambda>f. str_includes (getFilePath f) (''/'' @ srcDir @ ''/'')
                \<or> str_includes (getFilePath f) ([CHR 0x5C] @ srcDir @ [CHR 0x5C]))
       (getSourceFiles project)"

definition sourceByPath :: "SourceFile list \<Rightarrow> (string \<times> SourceFile) list" where
  "sourceByPath files = Map_of_entries (map (\<lambda>f. (norm_path f, f)) files)"

text \<open>
  Lines 98 to 100: the entry paths (the option, or the default list when the option is
  empty), each looked up in the whole project; a path with no source file is dropped.
\<close>

definition entryFiles :: "Project \<Rightarrow> ScanOptions \<Rightarrow> SourceFile list \<Rightarrow> SourceFile list" where
  "entryFiles project opts files =
     List.map_filter (getSourceFile project)
       (if opt_entry opts \<noteq> [] then opt_entry opts
        else defaultEntrypoints files (opt_srcDir opts))"

text \<open>
  Lines 109 to 113: the files one visited file pushes, in the order of its imports. The
  test reads the reachable set after the file's own path went in.
\<close>

definition pushedImports ::
  "(string \<times> SourceFile) list \<Rightarrow> SourceFile \<Rightarrow> string set \<Rightarrow> SourceFile list" where
  "pushedImports m sf R =
     List.map_filter
       (\<lambda>t. case resolveImport sf t m of
               None \<Rightarrow> None
             | Some r \<Rightarrow> if norm_path r \<in> R then None else Some r)
       (getImportDeclarations sf)"

lemma firstEndingWith_value:
  "firstEndingWith a m = Some v \<Longrightarrow> v \<in> snd ` set m"
  by (induction a m rule: firstEndingWith.induct) (auto split: if_splits)

lemma resolveCandidates_value:
  "resolveCandidates dir cands m = Some v \<Longrightarrow> v \<in> snd ` set m"
  by (induction dir cands m rule: resolveCandidates.induct)
     (auto split: option.splits dest: firstEndingWith_value)

lemma resolveImport_value:
  "resolveImport sf spec m = Some v \<Longrightarrow> v \<in> snd ` set m"
  by (auto simp: resolveImport_def split: if_splits dest: resolveCandidates_value)

lemma pushedImports_values:
  "set (pushedImports m sf R) \<subseteq> snd ` set m"
  by (auto simp: pushedImports_def map_filter_def split: option.splits if_splits
           dest: resolveImport_value)

text \<open>
  Lines 102 to 114: the traversal. The stack is a list whose head is the top: \<^verbatim>\<open>pop\<close> takes
  the head, and the files pushed in order end up reversed on top.
\<close>

function traverse ::
  "(string \<times> SourceFile) list \<Rightarrow> SourceFile list \<Rightarrow> string set \<Rightarrow> string set" where
  "traverse m [] R = R"
| "traverse m (sf # stack) R =
     (if norm_path sf \<in> R then traverse m stack R
      else traverse m (rev (pushedImports m sf (insert (norm_path sf) R)) @ stack)
             (insert (norm_path sf) R))"
  by pat_completeness auto

text \<open>
  The loop ends: the paths of the stack and of the map that are not yet reachable never
  grow, and shrink whenever a file is visited; otherwise the stack gets shorter.
\<close>

definition unvisited ::
  "(string \<times> SourceFile) list \<Rightarrow> SourceFile list \<Rightarrow> string set \<Rightarrow> string set" where
  "unvisited m stack R = norm_path ` (set stack \<union> snd ` set m) - R"

lemma finite_unvisited: "finite (unvisited m stack R)"
  by (simp add: unvisited_def)

lemma unvisited_pop: "card (unvisited m stack R) \<le> card (unvisited m (sf # stack) R)"
  by (rule card_mono) (auto simp: unvisited_def)

lemma unvisited_visit:
  assumes "norm_path sf \<notin> R"
  shows "card (unvisited m (rev (pushedImports m sf (insert (norm_path sf) R)) @ stack)
                 (insert (norm_path sf) R))
           < card (unvisited m (sf # stack) R)"
proof (rule psubset_card_mono)
  let ?new = "unvisited m (rev (pushedImports m sf (insert (norm_path sf) R)) @ stack)
                (insert (norm_path sf) R)"
  show "finite (unvisited m (sf # stack) R)" by (rule finite_unvisited)
  have "norm_path sf \<in> unvisited m (sf # stack) R"
    using assms by (simp add: unvisited_def)
  moreover have "norm_path sf \<notin> ?new"
    by (simp add: unvisited_def)
  moreover have "?new \<subseteq> unvisited m (sf # stack) R"
    using pushedImports_values[of m sf "insert (norm_path sf) R"] by (auto simp: unvisited_def)
  ultimately show "?new \<subset> unvisited m (sf # stack) R" by blast
qed

termination traverse
proof (relation "measures [\<lambda>(m, stack, R). card (unvisited m stack R),
                           \<lambda>(m, stack, R). length stack]")
  show "wf (measures [\<lambda>(m, stack, R). card (unvisited m stack R),
                      \<lambda>(m, stack, R). length stack])"
    by simp
next
  fix m sf stack R
  assume "norm_path sf \<in> R"
  then show "((m, stack, R), (m, sf # stack, R))
         \<in> measures [\<lambda>(m, stack, R). card (unvisited m stack R),
                      \<lambda>(m, stack, R). length stack]"
    using unvisited_pop[of m stack R sf] by auto
next
  fix m sf stack R
  assume "norm_path sf \<notin> R"
  then show "((m, rev (pushedImports m sf (insert (norm_path sf) R)) @ stack, insert (norm_path sf) R),
              (m, sf # stack, R))
         \<in> measures [\<lambda>(m, stack, R). card (unvisited m stack R),
                      \<lambda>(m, stack, R). length stack]"
    using unvisited_visit[of sf R m stack] by simp
qed

definition reachableSet :: "Project \<Rightarrow> ScanOptions \<Rightarrow> string set" where
  "reachableSet project opts =
     (let files = scannedFiles project (opt_srcDir opts)
      in traverse (sourceByPath files) (rev (entryFiles project opts files)) {})"

text \<open>Line 117.\<close>

definition unreachableFiles :: "Project \<Rightarrow> ScanOptions \<Rightarrow> SourceFile list" where
  "unreachableFiles project opts =
     filter (\<lambda>f. norm_path f \<notin> reachableSet project opts \<and> \<not> isDefinitelyKeep f)
       (scannedFiles project (opt_srcDir opts))"

subsection \<open>Unused symbols (lines 120 to 190)\<close>

definition isFunctionDeclaration :: "Node \<Rightarrow> bool" where
  "isFunctionDeclaration n = (case syntaxKind n of FunctionDeclaration _ _ \<Rightarrow> True | _ \<Rightarrow> False)"

definition isClassDeclaration :: "Node \<Rightarrow> bool" where
  "isClassDeclaration n = (case syntaxKind n of ClassDeclaration _ _ \<Rightarrow> True | _ \<Rightarrow> False)"

definition isVariableDeclaration :: "Node \<Rightarrow> bool" where
  "isVariableDeclaration n = (case syntaxKind n of VariableDeclaration _ _ \<Rightarrow> True | _ \<Rightarrow> False)"

definition isMethodDeclaration :: "Node \<Rightarrow> bool" where
  "isMethodDeclaration n = (case syntaxKind n of MethodDeclaration _ \<Rightarrow> True | _ \<Rightarrow> False)"

definition isExported :: "Node \<Rightarrow> bool" where
  "isExported n =
     (case syntaxKind n of
        FunctionDeclaration _ e \<Rightarrow> e
      | ClassDeclaration _ e \<Rightarrow> e
      | _ \<Rightarrow> False)"

definition isExportedVar :: "Node \<Rightarrow> bool" where
  "isExportedVar v =
     (case syntaxKind v of
        VariableDeclaration _ (Some e) \<Rightarrow> e
      | _ \<Rightarrow> False)"

text \<open>\<^verbatim>\<open>n.findReferences().flatMap(r => r.getReferences())\<close>.\<close>

definition refs :: "Node \<Rightarrow> ReferenceEntry list" where
  "refs n = concat (findReferences n)"

text \<open>Lines 124 to 141: the exported declarations of one file.\<close>

definition unusedExports :: "SourceFile \<Rightarrow> UnusedSymbol list" where
  "unusedExports sf =
     concat (map (\<lambda>exp. concat (map (\<lambda>d.
         if (isFunctionDeclaration d \<or> isClassDeclaration d \<or> isVariableDeclaration d)
            \<and> length (refs d) \<le> 1
         then [\<lparr>symNode = d, symFile = sf, symType = nodeType d, symName = readableName d,
                symReason = no_refs, symConfidence = 95 / 100\<rparr>]
         else []) (snd exp))) (getExportedDeclarations sf))"

text \<open>Lines 144 to 189: what the callback of \<^verbatim>\<open>forEachDescendant\<close> pushes for one node.\<close>

definition visitDescendant :: "SourceFile \<Rightarrow> Node \<Rightarrow> UnusedSymbol list" where
  "visitDescendant sf n =
     (if isFunctionDeclaration n \<and> \<not> isExported n \<and> length (refs n) \<le> 1
      then [\<lparr>symNode = n, symFile = sf, symType = Function, symName = readableName n,
             symReason = no_refs, symConfidence = 9 / 10\<rparr>] else [])
     @ (if isClassDeclaration n \<and> \<not> isExported n \<and> length (refs n) \<le> 1
        then [\<lparr>symNode = n, symFile = sf, symType = Class, symName = readableName n,
               symReason = no_refs, symConfidence = 9 / 10\<rparr>] else [])
     @ (if isVariableDeclaration n \<and> \<not> isExportedVar n \<and> length (refs n) \<le> 1
        then [\<lparr>symNode = n, symFile = sf, symType = Variable, symName = readableName n,
               symReason = no_refs, symConfidence = 9 / 10\<rparr>] else [])
     @ (if isMethodDeclaration n \<and> length (refs n) \<le> 1
        then [\<lparr>symNode = n, symFile = sf, symType = Method, symName = readableName n,
               symReason = no_refs, symConfidence = 9 / 10\<rparr>] else [])"

definition unusedLocals :: "SourceFile \<Rightarrow> UnusedSymbol list" where
  "unusedLocals sf = concat (map (visitDescendant sf) (forEachDescendant sf))"

text \<open>Line 122: the loop runs over \<^verbatim>\<open>files\<close>, every file under the source directory.\<close>

definition unusedSymbols :: "SourceFile list \<Rightarrow> UnusedSymbol list" where
  "unusedSymbols files = concat (map (\<lambda>sf. unusedExports sf @ unusedLocals sf) files)"

section \<open>The environment: clock, store, file system, console\<close>

text \<open>
  An \<^verbatim>\<open>ObjectId\<close> is twelve bytes. \<^verbatim>\<open>new ObjectId(s)\<close> on a string accepts exactly
  twenty-four hexadecimal digits and throws a \<^verbatim>\<open>BSONError\<close> on any other string;
  \<^verbatim>\<open>toString\<close> prints the twenty-four lower-case digits.
\<close>

type_synonym ObjectId = "96 word"

datatype Error = BSONError | DuplicateKey

datatype Outcome = Returned | Exited nat | Threw Error

definition isHexDigit :: "char \<Rightarrow> bool" where
  "isHexDigit c =
     (let n = (of_char c :: nat)
      in (48 \<le> n \<and> n \<le> 57) \<or> (65 \<le> n \<and> n \<le> 70) \<or> (97 \<le> n \<and> n \<le> 102))"

definition hexValue :: "char \<Rightarrow> nat" where
  "hexValue c =
     (let n = (of_char c :: nat)
      in if n \<le> 57 then n - 48 else if n \<le> 70 then n - 55 else n - 87)"

definition fromHex :: "string \<Rightarrow> nat" where
  "fromHex s = foldl (\<lambda>a c. a * 16 + hexValue c) 0 s"

definition checkForHexRegExp :: "string \<Rightarrow> bool" where
  "checkForHexRegExp s = (length s = 24 \<and> list_all isHexDigit s)"

definition ObjectId_new :: "string \<Rightarrow> Error + ObjectId" where
  "ObjectId_new s = (if checkForHexRegExp s then Inr (of_nat (fromHex s)) else Inl BSONError)"

definition hexDigit :: "nat \<Rightarrow> char" where
  "hexDigit n = (if n < 10 then char_of (48 + n) else char_of (87 + n))"

fun toHex :: "nat \<Rightarrow> nat \<Rightarrow> string" where
  "toHex 0 n = []"
| "toHex (Suc k) n = toHex k (n div 16) @ [hexDigit (n mod 16)]"

definition toHexString :: "ObjectId \<Rightarrow> string" where
  "toHexString oid = toHex 24 (unat oid)"

text \<open>
  \<^verbatim>\<open>Buffer\<close>: \<^verbatim>\<open>Buffer.from(text, "utf8")\<close> gives the bytes of a string, which the model's
  string already is, and \<^verbatim>\<open>toString("utf-8")\<close> reads bytes that encode a string back as that
  string. \<^verbatim>\<open>toString("base64")\<close> is the encoding of RFC 4648 with padding;
  \<^verbatim>\<open>Buffer.from(s, "base64")\<close> stops at the first \<^verbatim>\<open>=\<close>, skips every character outside the
  alphabet (the URL-safe digits count as digits), and decodes what the last incomplete
  group holds.
\<close>

definition base64Digit :: "nat \<Rightarrow> char" where
  "base64Digit i =
     (if i < 26 then char_of (65 + i)
      else if i < 52 then char_of (71 + i)
      else if i < 62 then char_of (i - 4)
      else if i = 62 then CHR ''+'' else CHR ''/'')"

definition unbase64 :: "char \<Rightarrow> nat option" where
  "unbase64 c =
     (let n = (of_char c :: nat)
      in if 65 \<le> n \<and> n \<le> 90 then Some (n - 65)
         else if 97 \<le> n \<and> n \<le> 122 then Some (n - 71)
         else if 48 \<le> n \<and> n \<le> 57 then Some (n + 4)
         else if c = CHR ''+'' \<or> c = CHR ''-'' then Some 62
         else if c = CHR ''/'' \<or> c = CHR ''_'' then Some 63
         else None)"

fun base64Encode :: "string \<Rightarrow> string" where
  "base64Encode [] = []"
| "base64Encode [x] =
     (let a = (of_char x :: nat)
      in [base64Digit (a div 4), base64Digit ((a mod 4) * 16), CHR ''='', CHR ''=''])"
| "base64Encode [x, y] =
     (let a = (of_char x :: nat); b = (of_char y :: nat)
      in [base64Digit (a div 4), base64Digit ((a mod 4) * 16 + b div 16),
          base64Digit ((b mod 16) * 4), CHR ''=''])"
| "base64Encode (x # y # z # rest) =
     (let a = (of_char x :: nat); b = (of_char y :: nat); c = (of_char z :: nat)
      in [base64Digit (a div 4), base64Digit ((a mod 4) * 16 + b div 16),
          base64Digit ((b mod 16) * 4 + c div 64), base64Digit (c mod 64)]
         @ base64Encode rest)"

fun decodeGroups :: "nat list \<Rightarrow> string" where
  "decodeGroups (a # b # c # d # rest) =
     [char_of (a * 4 + b div 16), char_of ((b mod 16) * 16 + c div 4),
      char_of ((c mod 4) * 64 + d)] @ decodeGroups rest"
| "decodeGroups [a, b, c] = [char_of (a * 4 + b div 16), char_of ((b mod 16) * 16 + c div 4)]"
| "decodeGroups [a, b] = [char_of (a * 4 + b div 16)]"
| "decodeGroups [a] = []"
| "decodeGroups [] = []"

definition base64Decode :: "string \<Rightarrow> string" where
  "base64Decode s = decodeGroups (List.map_filter unbase64 (takeWhile (\<lambda>c. c \<noteq> CHR ''='') s))"

definition Buffer_from_utf8 :: "string \<Rightarrow> string" where
  "Buffer_from_utf8 txt = txt"

definition Buffer_toString_utf8 :: "string \<Rightarrow> string" where
  "Buffer_toString_utf8 bytes = bytes"

definition toB64 :: "string \<Rightarrow> string" where
  "toB64 txt = base64Encode (Buffer_from_utf8 txt)"

text \<open>
  One line of console output per event; the comment gives the text \<^verbatim>\<open>src/index.ts\<close> prints
  (colours and pictographs left out).
\<close>

datatype Event =
    MissingMongoUri \<comment> \<open>Missing MongoDB URI. Pass --mongo or set MONGODB_URI.\<close>
  | Scanning string \<comment> \<open>Scanning for dead code in <srcDir>/\<close>
  | RepositoryLine string \<comment> \<open>Repository: <repo>\<close>
  | CommitLine string \<comment> \<open>Commit: <commit>\<close>
  | ArchivingFiles nat \<comment> \<open>Archiving <n> unreachable files...\<close>
  | FileArchived string string \<comment> \<open><path> -> <insertedId>\<close>
  | Deleted \<comment> \<open>deleted\<close>
  | ArchivingSymbols nat \<comment> \<open>Archiving <n> unused symbols...\<close>
  | SymbolArchived ItemType string string string \<comment> \<open><icon> <name> @ <path> -> <insertedId>\<close>
  | NodeRemovalNotImplemented \<comment> \<open>Node removal not implemented yet\<close>
  | Archived \<comment> \<open>archived\<close>
  | Finished nat \<comment> \<open>ck finished! Archived <n> items.\<close>
  | RunGitDiff \<comment> \<open>Run 'git diff' to see changes, then commit if satisfied.\<close>
  | NotFound string \<comment> \<open>Archive item with ID <id> not found.\<close>
  | RestoredTo ItemType string string \<comment> \<open>Restored <type> '<name>' to <outputPath>\<close>
  | RestoredFrom ItemType string string \<comment> \<open>Restored <type>: <name> from <path>\<close>
  | Rule nat \<comment> \<open>a rule of <n> dashes\<close>
  | Printed string \<comment> \<open>the restored content\<close>

text \<open>
  The world a command runs in and changes: the \<^verbatim>\<open>ck_items\<close> collection of the database the
  command connects to (documents in insertion order, each under its \<^verbatim>\<open>_id\<close>), the files on
  disk by path, the console, and how many times the clock was read and an id was made.
  The environment fixes what the outside answers: the clock at its k-th reading, the k-th
  \<^verbatim>\<open>ObjectId\<close> the driver makes, the output of a shell command (\<open>None\<close> when \<^verbatim>\<open>execSync\<close>
  throws) and \<^verbatim>\<open>path.resolve\<close>. The store is taken to be reachable.
\<close>

record World =
  collection :: "(ObjectId \<times> ArchiveItem) list"
  disk :: "string \<Rightarrow> string option"
  console :: "Event list"
  clockReads :: nat
  idsMade :: nat

record Env =
  dateNow :: "nat \<Rightarrow> int"
  newObjectId :: "nat \<Rightarrow> ObjectId"
  execSync :: "string \<Rightarrow> string option"
  pathResolve :: "string \<Rightarrow> string"

definition logLine :: "Event \<Rightarrow> World \<Rightarrow> World" where
  "logLine e w = w\<lparr>console := console w @ [e]\<rparr>"

definition readClock :: "Env \<Rightarrow> World \<Rightarrow> int \<times> World" where
  "readClock env w = (dateNow env (clockReads w), w\<lparr>clockReads := Suc (clockReads w)\<rparr>)"

definition safeExec :: "Env \<Rightarrow> string \<Rightarrow> string" where
  "safeExec env cmd = (case execSync env cmd of Some out \<Rightarrow> out | None \<Rightarrow> [])"

text \<open>\<^verbatim>\<open>a || b\<close> on strings: the empty string is falsy.\<close>

definition orElse :: "string \<Rightarrow> string \<Rightarrow> string" where
  "orElse a b = (if a = [] then b else a)"

text \<open>
  \<^verbatim>\<open>col.insertOne(item)\<close>: the driver makes the \<^verbatim>\<open>_id\<close>, and the store refuses a document
  whose \<^verbatim>\<open>_id\<close> it already holds.
\<close>

definition insertOne :: "Env \<Rightarrow> ArchiveItem \<Rightarrow> World \<Rightarrow> Error + (ObjectId \<times> World)" where
  "insertOne env item w =
     (let oid = newObjectId env (idsMade w)
      in if oid \<in> fst ` set (collection w) then Inl DuplicateKey
         else Inr (oid, w\<lparr>collection := collection w @ [(oid, item)],
                           idsMade := Suc (idsMade w)\<rparr>))"

definition findOne :: "ObjectId \<Rightarrow> World \<Rightarrow> ArchiveItem option" where
  "findOne oid w = map_of (collection w) oid"

text \<open>\<^verbatim>\<open>fs.rmSync(p, { force: true })\<close>: no error when the file is missing.\<close>

definition rmSync :: "string \<Rightarrow> World \<Rightarrow> World" where
  "rmSync p w = w\<lparr>disk := (disk w)(p := None)\<rparr>"

definition writeFileSync :: "string \<Rightarrow> string \<Rightarrow> World \<Rightarrow> World" where
  "writeFileSync p txt w = w\<lparr>disk := (disk w)(p \<mapsto> txt)\<rparr>"

text \<open>\<^verbatim>\<open>sf.saveSync()\<close> writes the text the project holds for the file to the file's path.\<close>

definition saveSync :: "SourceFile \<Rightarrow> World \<Rightarrow> World" where
  "saveSync sf w = writeFileSync (getFilePath sf) (getFullText sf) w"

section \<open>\<^verbatim>\<open>scanCommand\<close>: archive and apply (lines 192 to 272)\<close>

definition fileItem ::
  "ScanOptions \<Rightarrow> string \<Rightarrow> string \<Rightarrow> int \<Rightarrow> int \<Rightarrow> SourceFile \<Rightarrow> ArchiveItem" where
  "fileItem opts rp cm ttl now sf =
     \<lparr>createdAt = now, expiresAt = ttl, repo = rp, commit = cm,
      language = getLanguage sf, itemType = File, name = None,
      path = rel sf (opt_srcDir opts), itemRange = None, reason = unreachable_file,
      confidence = 98 / 100, references = [],
      content = \<lparr>kind = kind_text, base64 = toB64 (getFullText sf)\<rparr>,
      itemNote = Some ''ck unreachable file''\<rparr>"

definition symbolItem ::
  "ScanOptions \<Rightarrow> string \<Rightarrow> string \<Rightarrow> int \<Rightarrow> int \<Rightarrow> UnusedSymbol \<Rightarrow> ArchiveItem" where
  "symbolItem opts rp cm ttl now u =
     \<lparr>createdAt = now, expiresAt = ttl, repo = rp, commit = cm,
      language = getLanguage (symFile u), itemType = symType u, name = Some (symName u),
      path = rel (symFile u) (opt_srcDir opts), itemRange = Some (toRange (symNode u)),
      reason = symReason u, confidence = symConfidence u, references = [],
      content = \<lparr>kind = kind_text, base64 = toB64 (getText (symNode u))\<rparr>,
      itemNote = Some ''ck unused symbol''\<rparr>"

text \<open>Lines 218 to 222: after the insert of a file, the log line and, with \<^verbatim>\<open>--apply\<close>, the removal.\<close>

definition afterFileInsert :: "ScanOptions \<Rightarrow> SourceFile \<Rightarrow> ObjectId \<Rightarrow> World \<Rightarrow> World" where
  "afterFileInsert opts sf insertedId w =
     (let w3 = logLine (FileArchived (rel sf (opt_srcDir opts)) (toHexString insertedId)) w
      in if opt_apply opts then logLine Deleted (rmSync (getFilePath sf) w3) else w3)"

text \<open>Lines 202 to 223: one round per unreachable file.\<close>

fun archiveFiles ::
  "Env \<Rightarrow> ScanOptions \<Rightarrow> string \<Rightarrow> string \<Rightarrow> int \<Rightarrow> SourceFile list \<Rightarrow> World
     \<Rightarrow> Outcome \<times> World" where
  "archiveFiles env opts rp cm ttl [] w = (Returned, w)"
| "archiveFiles env opts rp cm ttl (sf # rest) w =
     (case readClock env w of (now, w1) \<Rightarrow>
        (case insertOne env (fileItem opts rp cm ttl now sf) w1 of
           Inl e \<Rightarrow> (Threw e, w1)
         | Inr (insertedId, w2) \<Rightarrow>
             archiveFiles env opts rp cm ttl rest (afterFileInsert opts sf insertedId w2)))"

text \<open>
  Lines 248 to 260: after the insert of a symbol. With \<^verbatim>\<open>--apply\<close> the round prints that node
  removal is not implemented, saves the file as the project holds it (\<^verbatim>\<open>u.file.saveSync()\<close>),
  and prints \<^verbatim>\<open>archived\<close>.
\<close>

definition afterSymbolInsert :: "ScanOptions \<Rightarrow> UnusedSymbol \<Rightarrow> ObjectId \<Rightarrow> World \<Rightarrow> World" where
  "afterSymbolInsert opts u insertedId w =
     (let w3 = logLine (SymbolArchived (symType u) (symName u)
                          (rel (symFile u) (opt_srcDir opts)) (toHexString insertedId)) w
      in if opt_apply opts
         then logLine Archived (saveSync (symFile u) (logLine NodeRemovalNotImplemented w3))
         else w3)"

text \<open>
  Lines 229 to 262: one round per unused symbol; a symbol whose confidence is below the
  threshold is skipped (line 230).
\<close>

fun archiveSymbols ::
  "Env \<Rightarrow> ScanOptions \<Rightarrow> string \<Rightarrow> string \<Rightarrow> int \<Rightarrow> UnusedSymbol list \<Rightarrow> nat \<Rightarrow> World
     \<Rightarrow> Outcome \<times> nat \<times> World" where
  "archiveSymbols env opts rp cm ttl [] archivedCount w = (Returned, archivedCount, w)"
| "archiveSymbols env opts rp cm ttl (u # rest) archivedCount w =
     (if symConfidence u < opt_confidence opts
      then archiveSymbols env opts rp cm ttl rest archivedCount w
      else
        (case readClock env w of (now, w1) \<Rightarrow>
           (case insertOne env (symbolItem opts rp cm ttl now u) w1 of
              Inl e \<Rightarrow> (Threw e, archivedCount, w1)
            | Inr (insertedId, w2) \<Rightarrow>
                archiveSymbols env opts rp cm ttl rest (Suc archivedCount)
                  (afterSymbolInsert opts u insertedId w2))))"

text \<open>Lines 83 and 84.\<close>

definition scanRepo :: "Env \<Rightarrow> string" where
  "scanRepo env = orElse (trim (safeExec env ''git remote get-url origin'')) ''local''"

definition scanCommit :: "Env \<Rightarrow> string" where
  "scanCommit env = orElse (trim (safeExec env ''git rev-parse HEAD'')) ''unknown''"

text \<open>
  The command. The expiry date is computed once (line 197), before the first insert, from
  its own reading of the clock; an exception of the store ends the run where it is thrown.
\<close>

definition scanCommand :: "Env \<Rightarrow> Project \<Rightarrow> ScanOptions \<Rightarrow> World \<Rightarrow> Outcome \<times> World" where
  "scanCommand env project opts w =
     (if opt_mongo opts = [] then (Exited 1, logLine MissingMongoUri w)
      else
        (let rp = scanRepo env;
             cm = scanCommit env;
             w0 = logLine (CommitLine cm)
                    (logLine (RepositoryLine rp) (logLine (Scanning (opt_srcDir opts)) w));
             unreachable = unreachableFiles project opts;
             unused = unusedSymbols (scannedFiles project (opt_srcDir opts))
         in case readClock env w0 of (t0, w1) \<Rightarrow>
              (let ttl = t0 + 1000 * 60 * 60 * 24 * 90
               in case archiveFiles env opts rp cm ttl unreachable
                         (logLine (ArchivingFiles (length unreachable)) w1) of
                    (Threw e, w2) \<Rightarrow> (Threw e, w2)
                  | (_, w2) \<Rightarrow>
                     (case archiveSymbols env opts rp cm ttl unused 0
                             (logLine (ArchivingSymbols (length unused)) w2) of
                        (Threw e, _, w3) \<Rightarrow> (Threw e, w3)
                      | (_, archivedCount, w3) \<Rightarrow>
                          (let w4 = logLine (Finished (length unreachable + archivedCount)) w3
                           in (Returned, if opt_apply opts then logLine RunGitDiff w4 else w4))))))"

section \<open>\<^verbatim>\<open>restoreCommand\<close> (lines 274 to 308)\<close>

text \<open>\<^verbatim>\<open>item.name || 'file'\<close>.\<close>

definition nameOrFile :: "ArchiveItem \<Rightarrow> string" where
  "nameOrFile item = (case name item of None \<Rightarrow> ''file'' | Some s \<Rightarrow> orElse s ''file'')"

text \<open>Lines 294 to 298: with \<^verbatim>\<open>--output\<close>, the content goes to the resolved path.\<close>

definition writeRestored :: "Env \<Rightarrow> string \<Rightarrow> ArchiveItem \<Rightarrow> string \<Rightarrow> World \<Rightarrow> World" where
  "writeRestored env out item restored w =
     (let outputPath = pathResolve env out
      in logLine (RestoredTo (itemType item) (nameOrFile item) outputPath)
           (writeFileSync outputPath restored w))"

text \<open>Lines 300 to 304: without it, the content goes to the console.\<close>

definition printRestored :: "ArchiveItem \<Rightarrow> string \<Rightarrow> World \<Rightarrow> World" where
  "printRestored item restored w =
     logLine (Rule 50) (logLine (Printed restored) (logLine (Rule 50)
       (logLine (RestoredFrom (itemType item) (nameOrFile item) (path item)) w)))"

text \<open>Lines 293 to 305: \<^verbatim>\<open>opts.output\<close> counts when it is given and not empty.\<close>

definition deliver :: "Env \<Rightarrow> RestoreOptions \<Rightarrow> ArchiveItem \<Rightarrow> string \<Rightarrow> World \<Rightarrow> World" where
  "deliver env ropts item restored w =
     (case ropt_output ropts of
        None \<Rightarrow> printRestored item restored w
      | Some out \<Rightarrow>
          if out = [] then printRestored item restored w
          else writeRestored env out item restored w)"

text \<open>
  The command. \<^verbatim>\<open>new ObjectId(id)\<close> runs before the lookup and outside any \<^verbatim>\<open>try\<close>: when it
  throws, the command ends with that exception.
\<close>

definition restoreCommand :: "Env \<Rightarrow> string \<Rightarrow> RestoreOptions \<Rightarrow> World \<Rightarrow> Outcome \<times> World" where
  "restoreCommand env idString ropts w =
     (if ropt_mongo ropts = [] then (Exited 1, logLine MissingMongoUri w)
      else
        (case ObjectId_new idString of
           Inl e \<Rightarrow> (Threw e, w)
         | Inr oid \<Rightarrow>
            (case findOne oid w of
               None \<Rightarrow> (Exited 1, logLine (NotFound idString) w)
             | Some item \<Rightarrow>
                 (Returned,
                  deliver env ropts item
                    (Buffer_toString_utf8 (base64Decode (base64 (content item)))) w))))"

section \<open>Notions for the statements and the proofs\<close>

text \<open>
  No command removes or changes a document, and \<^verbatim>\<open>insertOne\<close> appends: the documents a run
  persisted are those behind the ones that were there before.
\<close>

definition persistedBy :: "World \<Rightarrow> World \<Rightarrow> (ObjectId \<times> ArchiveItem) list" where
  "persistedBy w w' = drop (length (collection w)) (collection w')"

text \<open>Every import of a file of \<open>V\<close> that \<^verbatim>\<open>resolveImport\<close> resolves leads to a path of \<open>S\<close>.\<close>

definition importsInside ::
  "(string \<times> SourceFile) list \<Rightarrow> SourceFile set \<Rightarrow> string set \<Rightarrow> bool" where
  "importsInside m V S =
     (\<forall>u\<in>V. \<forall>spec\<in>set (getImportDeclarations u). \<forall>r.
        resolveImport u spec m = Some r \<longrightarrow> norm_path r \<in> S)"

text \<open>The digits \<^verbatim>\<open>Buffer.from(s, "base64")\<close> decodes, as numbers below 64.\<close>

definition sextetsOf :: "string \<Rightarrow> nat list" where
  "sextetsOf s = List.map_filter unbase64 (takeWhile (\<lambda>c. c \<noteq> CHR ''='') s)"

text \<open>The documents a loop appends, and the findings they were built from.\<close>

definition fileItemsFrom ::
  "Env \<Rightarrow> ScanOptions \<Rightarrow> string \<Rightarrow> string \<Rightarrow> int \<Rightarrow> SourceFile list \<Rightarrow> nat
     \<Rightarrow> (ObjectId \<times> ArchiveItem) list \<Rightarrow> bool" where
  "fileItemsFrom env opts rp cm ttl fs k0 added =
     (\<forall>p\<in>set added. \<exists>sf\<in>set fs. \<exists>k\<ge>k0.
        snd p = fileItem opts rp cm ttl (dateNow env k) sf)"

definition symbolItemsFrom ::
  "Env \<Rightarrow> ScanOptions \<Rightarrow> string \<Rightarrow> string \<Rightarrow> int \<Rightarrow> UnusedSymbol list \<Rightarrow> nat
     \<Rightarrow> (ObjectId \<times> ArchiveItem) list \<Rightarrow> bool" where
  "symbolItemsFrom env opts rp cm ttl us k0 added =
     (\<forall>p\<in>set added. \<exists>u\<in>set us. \<not> symConfidence u < opt_confidence opts \<and>
        (\<exists>k\<ge>k0. snd p = symbolItem opts rp cm ttl (dateNow env k) u))"

text \<open>The expiry date a run that starts in \<open>w\<close> computes (line 197).\<close>

definition scanTtl :: "Env \<Rightarrow> World \<Rightarrow> int" where
  "scanTtl env w = dateNow env (clockReads w) + 1000 * 60 * 60 * 24 * 90"

section \<open>A small project to run the commands on\<close>

definition helperNode :: Node where
  "helperNode =
     \<lparr>syntaxKind = FunctionDeclaration (Some ''helper'') False,
      findReferences = [[(''/proj/src/dead.ts'', 1)]],
      getText = ''function helper() {}'',
      getStartLineNumber = 1, getEndLineNumber = 1\<rparr>"

definition mainNode :: Node where
  "mainNode =
     \<lparr>syntaxKind = FunctionDeclaration (Some ''main'') True,
      findReferences = [[(''/proj/src/index.ts'', 2), (''/proj/src/index.ts'', 3)]],
      getText = ''export function main() {}'',
      getStartLineNumber = 2, getEndLineNumber = 2\<rparr>"

definition unusedNode :: Node where
  "unusedNode =
     \<lparr>syntaxKind = FunctionDeclaration (Some ''unusedFunction'') True,
      findReferences = [[(''/proj/src/index.ts'', 3)]],
      getText = ''export function unusedFunction() {}'',
      getStartLineNumber = 3, getEndLineNumber = 3\<rparr>"

definition indexFile :: SourceFile where
  "indexFile =
     \<lparr>getFilePath = ''/proj/src/index.ts'', getDirectoryPath = ''/proj/src'',
      getImportDeclarations = [''.lib'', ''react''],
      getExportedDeclarations = [(''main'', [mainNode]), (''unusedFunction'', [unusedNode])],
      forEachDescendant = [mainNode, unusedNode],
      getFullText = ''export function main() {} export function unusedFunction() {} main();''\<rparr>"

definition libFile :: SourceFile where
  "libFile =
     \<lparr>getFilePath = ''/proj/src/.lib.ts'', getDirectoryPath = ''/proj/src'',
      getImportDeclarations = [],
      getExportedDeclarations = [],
      forEachDescendant = [],
      getFullText = ''console.log(1);''\<rparr>"

definition deadFile :: SourceFile where
  "deadFile =
     \<lparr>getFilePath = ''/proj/src/dead.ts'', getDirectoryPath = ''/proj/src'',
      getImportDeclarations = [],
      getExportedDeclarations = [],
      forEachDescendant = [helperNode],
      getFullText = ''function helper() {}''\<rparr>"

definition testFile :: SourceFile where
  "testFile =
     \<lparr>getFilePath = ''/proj/src/a.test.ts'', getDirectoryPath = ''/proj/src'',
      getImportDeclarations = [],
      getExportedDeclarations = [],
      forEachDescendant = [],
      getFullText = ''test();''\<rparr>"

definition demoProject :: Project where
  "demoProject =
     \<lparr>getSourceFiles = [indexFile, libFile, deadFile, testFile],
      getSourceFile = (\<lambda>p. if p = ''src/index.ts'' then Some indexFile else None)\<rparr>"

definition demoOptions :: ScanOptions where
  "demoOptions =
     \<lparr>opt_project = ''tsconfig.json'', opt_entry = [], opt_mongo = ''mongodb://localhost'',
      opt_db = ''ck'', opt_apply = True, opt_report = True, opt_confidence = 9 / 10,
      opt_srcDir = ''src''\<rparr>"

definition demoEnv :: Env where
  "demoEnv =
     \<lparr>dateNow = (\<lambda>k. 1000 + 5 * int k), newObjectId = (\<lambda>k. of_nat (Suc k)),
      execSync = (\<lambda>cmd. None), pathResolve = (\<lambda>p. ''/cwd/'' @ p)\<rparr>"

definition demoWorld :: World where
  "demoWorld =
     \<lparr>collection = [],
      disk = [''/proj/src/index.ts'' \<mapsto> getFullText indexFile,
              ''/proj/src/.lib.ts'' \<mapsto> getFullText libFile,
              ''/proj/src/dead.ts'' \<mapsto> getFullText deadFile,
              ''/proj/src/a.test.ts'' \<mapsto> getFullText testFile],
      console = [], clockReads = 0, idsMade = 0\<rparr>"

definition exportedSymbol :: UnusedSymbol where
  "exportedSymbol =
     \<lparr>symNode = unusedNode, symFile = indexFile, symType = Function,
      symName = ''unusedFunction'', symReason = no_refs, symConfidence = 95 / 100\<rparr>"

definition helperSymbol :: UnusedSymbol where
  "helperSymbol =
     \<lparr>symNode = helperNode, symFile = deadFile, symType = Function, symName = ''helper'',
      symReason = no_refs, symConfidence = 9 / 10\<rparr>"

definition strictOptions :: ScanOptions where
  "strictOptions = demoOptions\<lparr>opt_confidence := 1\<rparr>"

definition demoRestore :: RestoreOptions where
  "demoRestore = \<lparr>ropt_output = None, ropt_mongo = ''mongodb://localhost'', ropt_db = ''ck''\<rparr>"

text \<open>A second project: the entry file imports its neighbour \<^verbatim>\<open>./used\<close>.\<close>

definition mainFile :: SourceFile where
  "mainFile =
     \<lparr>getFilePath = ''/proj/src/index.ts'', getDirectoryPath = ''/proj/src'',
      getImportDeclarations = [''./used''],
      getExportedDeclarations = [],
      forEachDescendant = [],
      getFullText = ''import ./used''\<rparr>"

definition usedFile :: SourceFile where
  "usedFile =
     \<lparr>getFilePath = ''/proj/src/used.ts'', getDirectoryPath = ''/proj/src'',
      getImportDeclarations = [],
      getExportedDeclarations = [],
      forEachDescendant = [],
      getFullText = ''export const used = 1;''\<rparr>"

definition importProject :: Project where
  "importProject =
     \<lparr>getSourceFiles = [mainFile, usedFile],
      getSourceFile = (\<lambda>p. if p = ''src/index.ts'' then Some mainFile else None)\<rparr>"

section \<open>Facts about the traversal\<close>

lemma update_set_subset: "set (AList.update k v al) \<subseteq> insert (k, v) (set al)"
  by (induction al) auto

lemma Map_of_entries_acc:
  "set (foldl (\<lambda>m (k, v). AList.update k v m) acc es) \<subseteq> set acc \<union> set es"
proof (induction es arbitrary: acc)
  case Nil
  then show ?case by simp
next
  case (Cons e es)
  obtain k v where e: "e = (k, v)" by (cases e)
  have "set (foldl (\<lambda>m (k, v). AList.update k v m) (AList.update k v acc) es)
          \<subseteq> set (AList.update k v acc) \<union> set es"
    by (rule Cons.IH)
  then show ?case using update_set_subset[of k v acc] by (auto simp: e)
qed

lemma sourceByPath_values: "snd ` set (sourceByPath files) \<subseteq> set files"
  using Map_of_entries_acc[of "[]" "map (\<lambda>f. (norm_path f, f)) files"]
  by (auto simp: sourceByPath_def Map_of_entries_def)

lemma pushedImports_member:
  "spec \<in> set (getImportDeclarations sf) \<Longrightarrow> resolveImport sf spec m = Some r
     \<Longrightarrow> norm_path r \<notin> R \<Longrightarrow> r \<in> set (pushedImports m sf R)"
  by (force simp: pushedImports_def map_filter_def image_iff)

lemma traverse_invariant:
  "norm_path ` V = R \<Longrightarrow> importsInside m V (R \<union> norm_path ` set stack) \<Longrightarrow>
   \<exists>V'. V \<subseteq> V' \<and> V' \<subseteq> V \<union> set stack \<union> snd ` set m
        \<and> norm_path ` V' = traverse m stack R
        \<and> norm_path ` set stack \<subseteq> traverse m stack R
        \<and> importsInside m V' (traverse m stack R)"
proof (induction m stack R arbitrary: V rule: traverse.induct)
  case (1 m R)
  then show ?case by auto
next
  case (2 m sf stack R)
  show ?case
  proof (cases "norm_path sf \<in> R")
    case True
    have "R \<union> norm_path ` set (sf # stack) = R \<union> norm_path ` set stack"
      using True by auto
    then have "importsInside m V (R \<union> norm_path ` set stack)"
      using "2.prems"(2) by simp
    from "2.IH"(1)[OF True "2.prems"(1) this]
    obtain V' where V': "V \<subseteq> V'" "V' \<subseteq> V \<union> set stack \<union> snd ` set m"
      "norm_path ` V' = traverse m stack R" "norm_path ` set stack \<subseteq> traverse m stack R"
      "importsInside m V' (traverse m stack R)" by blast
    have "norm_path sf \<in> traverse m stack R"
      using True "2.prems"(1) V'(1,3) by blast
    with V' True show ?thesis by (intro exI[of _ V']) auto
  next
    case False
    let ?R = "insert (norm_path sf) R"
    let ?st = "rev (pushedImports m sf ?R) @ stack"
    have a: "norm_path ` (insert sf V) = ?R" using "2.prems"(1) by auto
    have b: "importsInside m (insert sf V) (?R \<union> norm_path ` set ?st)"
      unfolding importsInside_def
    proof (intro ballI allI impI)
      fix u spec r
      assume u: "u \<in> insert sf V" and s: "spec \<in> set (getImportDeclarations u)"
        and r: "resolveImport u spec m = Some r"
      show "norm_path r \<in> ?R \<union> norm_path ` set ?st"
      proof (cases "u = sf")
        case True
        then show ?thesis using pushedImports_member[of spec sf m r ?R] s r by auto
      next
        case False
        then have "norm_path r \<in> R \<union> norm_path ` set (sf # stack)"
          using "2.prems"(2) u s r by (auto simp: importsInside_def)
        then show ?thesis by auto
      qed
    qed
    from "2.IH"(2)[OF False a b]
    obtain V' where V': "insert sf V \<subseteq> V'" "V' \<subseteq> insert sf V \<union> set ?st \<union> snd ` set m"
      "norm_path ` V' = traverse m ?st ?R" "norm_path ` set ?st \<subseteq> traverse m ?st ?R"
      "importsInside m V' (traverse m ?st ?R)" by blast
    have "norm_path sf \<in> traverse m ?st ?R" using V'(1,3) by blast
    moreover have "V' \<subseteq> V \<union> set (sf # stack) \<union> snd ` set m"
      using V'(2) pushedImports_values[of m sf ?R] by auto
    ultimately show ?thesis using V' False by (intro exI[of _ V']) auto
  qed
qed


lemma startsWith_iff: "startsWith s p \<longleftrightarrow> (\<exists>ys. s = p @ ys)"
proof
  assume "startsWith s p"
  then have "s = p @ drop (length p) s"
    unfolding startsWith_def by (metis append_take_drop_id)
  then show "\<exists>ys. s = p @ ys" ..
next
  assume "\<exists>ys. s = p @ ys"
  then show "startsWith s p" by (auto simp: startsWith_def)
qed

lemma str_includes_append: "str_includes (xs @ p @ ys) p"
proof (induction xs)
  case Nil
  have sw: "startsWith (p @ ys) p" by (simp add: startsWith_def)
  show ?case
  proof (cases "p @ ys")
    case Nil
    then show ?thesis by simp
  next
    case (Cons a list)
    then show ?thesis using sw by simp
  qed
next
  case (Cons x xs)
  then show ?case by simp
qed

lemma endsWith_append: "endsWith k a \<Longrightarrow> \<exists>xs. k = xs @ a"
  unfolding endsWith_def by (metis append_take_drop_id)

lemma replaceBackslashes_append:
  "replaceBackslashes (a @ b) = replaceBackslashes a @ replaceBackslashes b"
  by (simp add: replaceBackslashes_def)

text \<open>A candidate path that holds the segment never ends a key that does not hold it.\<close>

lemma firstEndingWith_None:
  assumes "\<forall>k\<in>fst ` set m. \<not> endsWith k a"
  shows "firstEndingWith a m = None"
  using assms by (induction a m rule: firstEndingWith.induct) auto

lemma segment_not_suffix:
  assumes seg: "replaceBackslashes seg = seg" and key: "\<not> str_includes k seg"
  shows "\<not> endsWith k (replaceBackslashes (dir @ seg @ rest))"
proof
  assume "endsWith k (replaceBackslashes (dir @ seg @ rest))"
  then obtain xs where "k = xs @ replaceBackslashes (dir @ seg @ rest)"
    using endsWith_append by blast
  then have "k = (xs @ replaceBackslashes dir) @ seg @ replaceBackslashes rest"
    by (simp add: replaceBackslashes_append seg)
  then have "str_includes k seg" using str_includes_append by metis
  with key show False by simp
qed

lemma resolveCandidates_None:
  assumes "\<forall>t\<in>set cands. \<forall>k\<in>fst ` set m.
             \<not> endsWith k (replaceBackslashes (dir @ ''/'' @ t))"
  shows "resolveCandidates dir cands m = None"
  using assms
proof (induction cands)
  case Nil
  show ?case by simp
next
  case (Cons t cands)
  have "firstEndingWith (replaceBackslashes (dir @ ''/'' @ t)) m = None"
    using Cons.prems by (intro firstEndingWith_None) simp
  then show ?case using Cons by simp
qed

lemma tryPaths_prefix: "t \<in> set (tryPaths spec) \<Longrightarrow> \<exists>suffix. t = spec @ suffix"
  by (auto simp: tryPaths_def)

lemma resolveImport_relative_None:
  assumes spec: "startsWith spec ''./'' \<or> startsWith spec ''../''"
    and keys: "\<forall>k\<in>fst ` set m. \<not> str_includes k ''/./'' \<and> \<not> str_includes k ''/../''"
  shows "resolveImport sf spec m = None"
proof -
  have "\<not> endsWith k (replaceBackslashes (getDirectoryPath sf @ ''/'' @ t))"
    if t: "t \<in> set (tryPaths spec)" and k: "k \<in> fst ` set m" for t k
  proof -
    from t obtain suffix where ts: "t = spec @ suffix" using tryPaths_prefix by blast
    from spec show ?thesis
    proof
      assume "startsWith spec ''./''"
      then obtain r where "spec = ''./'' @ r" unfolding startsWith_iff by blast
      then have e: "getDirectoryPath sf @ ''/'' @ t = getDirectoryPath sf @ ''/./'' @ (r @ suffix)"
        by (simp add: ts)
      have "\<not> str_includes k ''/./''" using keys k by blast
      then show ?thesis unfolding e
        by (intro segment_not_suffix) (simp_all add: replaceBackslashes_def)
    next
      assume "startsWith spec ''../''"
      then obtain r where "spec = ''../'' @ r" unfolding startsWith_iff by blast
      then have e: "getDirectoryPath sf @ ''/'' @ t = getDirectoryPath sf @ ''/../'' @ (r @ suffix)"
        by (simp add: ts)
      have "\<not> str_includes k ''/../''" using keys k by blast
      then show ?thesis unfolding e
        by (intro segment_not_suffix) (simp_all add: replaceBackslashes_def)
    qed
  qed
  then have "\<forall>t\<in>set (tryPaths spec). \<forall>k\<in>fst ` set m.
             \<not> endsWith k (replaceBackslashes (getDirectoryPath sf @ ''/'' @ t))"
    by blast
  then have "resolveCandidates (getDirectoryPath sf) (tryPaths spec) m = None"
    by (rule resolveCandidates_None)
  then show ?thesis by (simp add: resolveImport_def)
qed

lemma sourceByPath_keys: "fst ` set (sourceByPath files) \<subseteq> norm_path ` set files"
  using Map_of_entries_acc[of "[]" "map (\<lambda>f. (norm_path f, f)) files"]
  by (auto simp: sourceByPath_def Map_of_entries_def)

lemma pushedImports_Nil:
  assumes "\<forall>spec\<in>set (getImportDeclarations sf). resolveImport sf spec m = None"
  shows "pushedImports m sf R = []"
proof -
  have "filter (\<lambda>t. (case resolveImport sf t m of None \<Rightarrow> None
                       | Some r \<Rightarrow> if norm_path r \<in> R then None else Some r) \<noteq> None)
          (getImportDeclarations sf) = []"
    using assms by (auto simp: filter_empty_conv)
  then show ?thesis by (simp add: pushedImports_def map_filter_def)
qed

lemma traverse_no_pushes:
  "\<forall>sf\<in>set stack. \<forall>spec\<in>set (getImportDeclarations sf). resolveImport sf spec m = None
     \<Longrightarrow> traverse m stack R = R \<union> norm_path ` set stack"
proof (induction m stack R rule: traverse.induct)
  case (1 m R)
  show ?case by simp
next
  case (2 m sf stack R)
  have p: "pushedImports m sf (insert (norm_path sf) R) = []"
    using "2.prems" by (intro pushedImports_Nil) simp
  show ?case
  proof (cases "norm_path sf \<in> R")
    case True
    then show ?thesis using "2.IH"(1) "2.prems" by auto
  next
    case False
    have "traverse m stack (insert (norm_path sf) R)
            = insert (norm_path sf) R \<union> norm_path ` set stack"
      using "2.IH"(2)[OF False] "2.prems" by (simp add: p)
    then show ?thesis using False by (simp add: p)
  qed
qed

text \<open>
  What the traversal does guarantee: the path of every entry file is reachable, and the
  set is closed under the answers of \<^verbatim>\<open>resolveImport\<close> itself, the files being told apart by
  their normalised path.
\<close>

lemma traverse_closed_under_resolveImport:
  fixes project opts
  defines "F \<equiv> scannedFiles project (opt_srcDir opts)"
  defines "E \<equiv> entryFiles project opts F"
  assumes uniq: "inj_on norm_path (set E \<union> set F)"
  shows "(\<forall>e\<in>set E. norm_path e \<in> reachableSet project opts)
       \<and> (\<forall>u\<in>set E \<union> set F. norm_path u \<in> reachableSet project opts \<longrightarrow>
            (\<forall>spec\<in>set (getImportDeclarations u). \<forall>r.
               resolveImport u spec (sourceByPath F) = Some r \<longrightarrow>
                 r \<in> set F \<and> norm_path r \<in> reachableSet project opts))"
proof -
  let ?m = "sourceByPath F"
  have R: "reachableSet project opts = traverse ?m (rev E) {}"
    by (simp add: reachableSet_def F_def E_def Let_def)
  have "\<exists>V'. {} \<subseteq> V' \<and> V' \<subseteq> {} \<union> set (rev E) \<union> snd ` set ?m
        \<and> norm_path ` V' = traverse ?m (rev E) {}
        \<and> norm_path ` set (rev E) \<subseteq> traverse ?m (rev E) {}
        \<and> importsInside ?m V' (traverse ?m (rev E) {})"
    by (rule traverse_invariant) (simp_all add: importsInside_def)
  then obtain V' where V': "V' \<subseteq> set E \<union> snd ` set ?m"
      "norm_path ` V' = reachableSet project opts" "norm_path ` set E \<subseteq> reachableSet project opts"
      "importsInside ?m V' (reachableSet project opts)"
    unfolding R by auto
  have sub: "V' \<subseteq> set E \<union> set F" using V'(1) sourceByPath_values[of F] by auto
  have visited: "u \<in> V'" if "u \<in> set E \<union> set F" "norm_path u \<in> reachableSet project opts" for u
  proof -
    from that(2) have "norm_path u \<in> norm_path ` V'" by (simp add: V'(2))
    then obtain v where v: "v \<in> V'" "norm_path v = norm_path u" by auto
    with sub that(1) uniq have "v = u" by (auto dest: inj_onD)
    with v show ?thesis by simp
  qed
  show ?thesis
  proof (intro conjI ballI impI allI)
    fix e assume "e \<in> set E" then show "norm_path e \<in> reachableSet project opts" using V'(3) by auto
  next
    fix u spec r
    assume "u \<in> set E \<union> set F" "norm_path u \<in> reachableSet project opts"
      "spec \<in> set (getImportDeclarations u)" "resolveImport u spec ?m = Some r"
    then show "r \<in> set F" using resolveImport_value[of u spec ?m r] sourceByPath_values[of F] by auto
  next
    fix u spec r
    assume "u \<in> set E \<union> set F" "norm_path u \<in> reachableSet project opts"
      "spec \<in> set (getImportDeclarations u)" "resolveImport u spec ?m = Some r"
    then show "norm_path r \<in> reachableSet project opts"
      using visited[of u] V'(4) by (auto simp: importsInside_def)
  qed
qed

section \<open>Facts about the codecs\<close>

lemma unbase64_base64Digit: "i < 64 \<Longrightarrow> unbase64 (base64Digit i) = Some i"
  by (auto simp: unbase64_def base64Digit_def Let_def)

lemma unbase64_pad: "unbase64 (CHR ''='') = None"
  by (simp add: unbase64_def)

lemma base64Digit_not_pad: "i < 64 \<Longrightarrow> base64Digit i \<noteq> CHR ''=''"
  using unbase64_base64Digit[of i] unbase64_pad by auto

lemma div_mod_pack:
  fixes x y n :: nat
  assumes "y < n"
  shows "(x * n + y) div n = x" "(x * n + y) mod n = y"
  using assms by simp_all

lemma byte_parts:
  fixes b :: nat
  assumes "b < 256"
  shows "b div 4 < 64" "b div 16 < 16" "b div 64 < 4"
  using assms by simp_all

lemma regroup1:
  fixes a b :: nat
  assumes "b < 256"
  shows "(a div 4) * 4 + ((a mod 4) * 16 + b div 16) div 16 = a"
proof -
  have "((a mod 4) * 16 + b div 16) div 16 = a mod 4"
    using byte_parts(2)[OF assms] by (rule div_mod_pack(1))
  then show ?thesis by simp
qed

lemma regroup2:
  fixes a b c :: nat
  assumes "b < 256" "c < 256"
  shows "(((a mod 4) * 16 + b div 16) mod 16) * 16 + ((b mod 16) * 4 + c div 64) div 4 = b"
proof -
  have "((a mod 4) * 16 + b div 16) mod 16 = b div 16"
    using byte_parts(2)[OF assms(1)] by (rule div_mod_pack(2))
  moreover have "((b mod 16) * 4 + c div 64) div 4 = b mod 16"
    using byte_parts(3)[OF assms(2)] by (rule div_mod_pack(1))
  ultimately show ?thesis by simp
qed

lemma regroup3:
  fixes b c :: nat
  assumes "c < 256"
  shows "(((b mod 16) * 4 + c div 64) mod 4) * 64 + c mod 64 = c"
proof -
  have "((b mod 16) * 4 + c div 64) mod 4 = c div 64"
    using byte_parts(3)[OF assms] by (rule div_mod_pack(2))
  then show ?thesis by simp
qed

lemma sextet_bounds:
  fixes a b c :: nat
  assumes "a < 256" "b < 256" "c < 256"
  shows "a div 4 < 64" "(a mod 4) * 16 + b div 16 < 64" "(b mod 16) * 4 + c div 64 < 64"
    "c mod 64 < 64" "(a mod 4) * 16 < 64" "(b mod 16) * 4 < 64"
proof -
  have "a mod 4 < 4" "b mod 16 < 16" by simp_all
  moreover have "b div 16 < 16" "c div 64 < 4" "a div 4 < 64" using assms by simp_all
  ultimately show "a div 4 < 64" "(a mod 4) * 16 + b div 16 < 64" "(b mod 16) * 4 + c div 64 < 64"
    "c mod 64 < 64" "(a mod 4) * 16 < 64" "(b mod 16) * 4 < 64" by linarith+
qed

lemma of_char_less: "(of_char (c::char) :: nat) < 256"
  using mod_less_divisor[of 256 "of_char c :: nat"] by simp

lemma sextetsOf_digit:
  "i < 64 \<Longrightarrow> sextetsOf (base64Digit i # s) = i # sextetsOf s"
  by (simp add: sextetsOf_def base64Digit_not_pad unbase64_base64Digit)

lemma sextetsOf_pad: "sextetsOf (CHR ''='' # s) = []"
  by (simp add: sextetsOf_def)

lemma sextetsOf_Nil: "sextetsOf [] = []"
  by (simp add: sextetsOf_def)

lemma base64Decode_sextets: "base64Decode s = decodeGroups (sextetsOf s)"
  by (simp add: base64Decode_def sextetsOf_def)

lemma decode_encode_sextets: "decodeGroups (sextetsOf (base64Encode s)) = s"
proof (induction s rule: base64Encode.induct)
  case 1
  show ?case by (simp add: sextetsOf_Nil)
next
  case (2 x)
  define a where "a = (of_char x :: nat)"
  have a: "a < 256" by (simp add: a_def of_char_less)
  have x: "char_of a = x" by (simp add: a_def)
  have "sextetsOf (base64Encode [x]) = [a div 4, (a mod 4) * 16]"
    using sextet_bounds(1,5)[OF a a a]
    by (simp add: a_def[symmetric] Let_def sextetsOf_digit sextetsOf_pad)
  then show ?case using regroup1[of 0 a] x by simp
next
  case (3 x y)
  define a where "a = (of_char x :: nat)"
  define b where "b = (of_char y :: nat)"
  have a: "a < 256" and b: "b < 256" by (simp_all add: a_def b_def of_char_less)
  have x: "char_of a = x" and y: "char_of b = y" by (simp_all add: a_def b_def)
  have "sextetsOf (base64Encode [x, y])
          = [a div 4, (a mod 4) * 16 + b div 16, (b mod 16) * 4]"
    using sextet_bounds(1,2,6)[OF a b b]
    by (simp add: a_def[symmetric] b_def[symmetric] Let_def sextetsOf_digit sextetsOf_pad)
  then show ?case using regroup1[OF b, of a] regroup2[of b 0 a] x y by simp
next
  case (4 x y z rest)
  define a where "a = (of_char x :: nat)"
  define b where "b = (of_char y :: nat)"
  define c where "c = (of_char z :: nat)"
  have a: "a < 256" and b: "b < 256" and c: "c < 256"
    by (simp_all add: a_def b_def c_def of_char_less)
  have x: "char_of a = x" and y: "char_of b = y" and z: "char_of c = z"
    by (simp_all add: a_def b_def c_def)
  have "sextetsOf (base64Encode (x # y # z # rest))
          = a div 4 # ((a mod 4) * 16 + b div 16) # ((b mod 16) * 4 + c div 64) # (c mod 64)
              # sextetsOf (base64Encode rest)"
    using sextet_bounds(1,2,3,4)[OF a b c]
    by (simp add: a_def[symmetric] b_def[symmetric] c_def[symmetric] Let_def sextetsOf_digit)
  then show ?case
    using regroup1[OF b, of a] regroup2[OF b c, of a] regroup3[OF c, of b] x y z "4.IH"
    by simp
qed

lemma base64_roundtrip: "base64Decode (base64Encode s) = s"
  by (simp add: base64Decode_sextets decode_encode_sextets)

lemma restore_text: "Buffer_toString_utf8 (base64Decode (toB64 txt)) = txt"
  by (simp add: Buffer_toString_utf8_def toB64_def Buffer_from_utf8_def base64_roundtrip)

lemma hexValue_hexDigit: "d < 16 \<Longrightarrow> hexValue (hexDigit d) = d"
  by (auto simp: hexValue_def hexDigit_def Let_def)

lemma isHexDigit_hexDigit: "d < 16 \<Longrightarrow> isHexDigit (hexDigit d)"
  by (auto simp: isHexDigit_def hexDigit_def Let_def)

lemma length_toHex: "length (toHex k n) = k"
  by (induction k arbitrary: n) auto

lemma all_hex_toHex: "list_all isHexDigit (toHex k n)"
  by (induction k arbitrary: n) (auto simp: isHexDigit_hexDigit)

lemma fromHex_snoc: "fromHex (s @ [c]) = fromHex s * 16 + hexValue c"
  by (simp add: fromHex_def)

lemma fromHex_toHex: "fromHex (toHex k n) = n mod 16 ^ k"
proof (induction k arbitrary: n)
  case 0
  show ?case by (simp add: fromHex_def)
next
  case (Suc k)
  have "fromHex (toHex (Suc k) n) = (n div 16) mod 16 ^ k * 16 + n mod 16"
    by (simp add: fromHex_snoc Suc.IH hexValue_hexDigit)
  also have "\<dots> = n mod 16 ^ Suc k"
    by (simp add: mod_mult2_eq)
  finally show ?case .
qed

lemma ObjectId_roundtrip: "ObjectId_new (toHexString oid) = Inr oid"
proof -
  have "unat oid < 2 ^ 96" using unsigned_less[of oid] by simp
  then have "unat oid mod 16 ^ 24 = unat oid" by simp
  then show ?thesis
    by (simp add: ObjectId_new_def toHexString_def checkForHexRegExp_def length_toHex
          all_hex_toHex fromHex_toHex)
qed

section \<open>Facts about the archive loops\<close>

lemma insertOne_Inr:
  assumes "insertOne env item w = Inr (oid, w2)"
  shows "collection w2 = collection w @ [(oid, item)]" "oid \<notin> fst ` set (collection w)"
    "disk w2 = disk w" "clockReads w2 = clockReads w"
  using assms by (auto simp: insertOne_def Let_def split: if_splits)

lemma afterFileInsert_same:
  "collection (afterFileInsert opts sf oid w) = collection w"
  "clockReads (afterFileInsert opts sf oid w) = clockReads w"
  by (simp_all add: afterFileInsert_def Let_def logLine_def rmSync_def)

lemma afterSymbolInsert_same:
  "collection (afterSymbolInsert opts u oid w) = collection w"
  "clockReads (afterSymbolInsert opts u oid w) = clockReads w"
  by (simp_all add: afterSymbolInsert_def Let_def logLine_def saveSync_def writeFileSync_def)

lemma afterSymbolInsert_disk:
  "disk w q \<noteq> None \<Longrightarrow> disk (afterSymbolInsert opts u oid w) q \<noteq> None"
  "opt_apply opts \<Longrightarrow> disk (afterSymbolInsert opts u oid w) (getFilePath (symFile u)) \<noteq> None"
  by (simp_all add: afterSymbolInsert_def Let_def logLine_def saveSync_def writeFileSync_def)

lemma archiveFiles_added:
  "archiveFiles env opts rp cm ttl fs w = (r, w') \<Longrightarrow>
   \<exists>added. collection w' = collection w @ added
      \<and> fileItemsFrom env opts rp cm ttl fs (clockReads w) added
      \<and> (distinct (map fst (collection w)) \<longrightarrow> distinct (map fst (collection w')))
      \<and> clockReads w \<le> clockReads w'
      \<and> (r = Returned \<longrightarrow>
            (\<forall>sf\<in>set fs. \<exists>p\<in>set added. \<exists>k. snd p = fileItem opts rp cm ttl (dateNow env k) sf))"
proof (induction fs arbitrary: w)
  case Nil
  then show ?case by (auto simp: fileItemsFrom_def)
next
  case (Cons sf rest)
  let ?w1 = "w\<lparr>clockReads := Suc (clockReads w)\<rparr>"
  let ?item = "fileItem opts rp cm ttl (dateNow env (clockReads w)) sf"
  show ?case
  proof (cases "insertOne env ?item ?w1")
    case (Inl e)
    with Cons.prems have "w' = ?w1" by (simp add: readClock_def)
    then show ?thesis using Inl Cons.prems by (auto simp: fileItemsFrom_def readClock_def)
  next
    case (Inr res)
    obtain oid w2 where res: "res = (oid, w2)" by (cases res)
    note ins = insertOne_Inr[OF Inr[unfolded res]]
    let ?w4 = "afterFileInsert opts sf oid w2"
    have run: "archiveFiles env opts rp cm ttl rest ?w4 = (r, w')"
      using Cons.prems Inr res by (simp add: readClock_def)
    from Cons.IH[OF run] obtain added where added:
      "collection w' = collection ?w4 @ added"
      "fileItemsFrom env opts rp cm ttl rest (clockReads ?w4) added"
      "distinct (map fst (collection ?w4)) \<longrightarrow> distinct (map fst (collection w'))"
      "clockReads ?w4 \<le> clockReads w'"
      "r = Returned \<longrightarrow>
         (\<forall>sf\<in>set rest. \<exists>p\<in>set added. \<exists>k. snd p = fileItem opts rp cm ttl (dateNow env k) sf)"
      by blast
    have c4: "collection ?w4 = collection w @ [(oid, ?item)]"
      using ins(1) by (simp add: afterFileInsert_same)
    have k4: "clockReads ?w4 = Suc (clockReads w)"
      using ins(4) by (simp add: afterFileInsert_same)
    have 1: "collection w' = collection w @ ((oid, ?item) # added)"
      using added(1) c4 by simp
    have 2: "fileItemsFrom env opts rp cm ttl (sf # rest) (clockReads w) ((oid, ?item) # added)"
      using added(2) k4 unfolding fileItemsFrom_def
      by (auto intro: exI[of _ "clockReads w"])
    have 3: "distinct (map fst (collection w)) \<longrightarrow> distinct (map fst (collection w'))"
      using added(3) c4 ins(2) by auto
    have 4: "clockReads w \<le> clockReads w'" using added(4) k4 by simp
    have 5: "r = Returned \<longrightarrow>
        (\<forall>sf'\<in>set (sf # rest). \<exists>p\<in>set ((oid, ?item) # added). \<exists>k.
            snd p = fileItem opts rp cm ttl (dateNow env k) sf')"
      using added(5) by auto
    from 1 2 3 4 5 show ?thesis by blast
  qed
qed

lemma symbolItemsFrom_Cons:
  assumes "\<not> symConfidence u < opt_confidence opts"
    and "symbolItemsFrom env opts rp cm ttl rest (Suc k0) added"
  shows "symbolItemsFrom env opts rp cm ttl (u # rest) k0
           ((oid, symbolItem opts rp cm ttl (dateNow env k0) u) # added)"
  unfolding symbolItemsFrom_def
proof
  fix p
  assume p: "p \<in> set ((oid, symbolItem opts rp cm ttl (dateNow env k0) u) # added)"
  show "\<exists>v\<in>set (u # rest). \<not> symConfidence v < opt_confidence opts \<and>
          (\<exists>k\<ge>k0. snd p = symbolItem opts rp cm ttl (dateNow env k) v)"
  proof (cases "p = (oid, symbolItem opts rp cm ttl (dateNow env k0) u)")
    case True
    then show ?thesis using assms(1) by auto
  next
    case False
    with p have "p \<in> set added" by simp
    with assms(2) obtain v k where "v \<in> set rest" "\<not> symConfidence v < opt_confidence opts"
      "Suc k0 \<le> k" "snd p = symbolItem opts rp cm ttl (dateNow env k) v"
      unfolding symbolItemsFrom_def by blast
    then show ?thesis by (auto intro!: bexI[of _ v] exI[of _ k])
  qed
qed

lemma archiveSymbols_added:
  "archiveSymbols env opts rp cm ttl us n w = (r, n', w') \<Longrightarrow>
   \<exists>added. collection w' = collection w @ added
      \<and> symbolItemsFrom env opts rp cm ttl us (clockReads w) added
      \<and> (distinct (map fst (collection w)) \<longrightarrow> distinct (map fst (collection w')))
      \<and> (r = Returned \<longrightarrow>
            (\<forall>u\<in>set us. \<not> symConfidence u < opt_confidence opts \<longrightarrow>
               (\<exists>p\<in>set added. \<exists>k. snd p = symbolItem opts rp cm ttl (dateNow env k) u)))"
proof (induction us arbitrary: w n)
  case Nil
  then show ?case by (auto simp: symbolItemsFrom_def)
next
  case (Cons u rest)
  show ?case
  proof (cases "symConfidence u < opt_confidence opts")
    case True
    then have run: "archiveSymbols env opts rp cm ttl rest n w = (r, n', w')"
      using Cons.prems by simp
    from Cons.IH[OF run] obtain added where added:
      "collection w' = collection w @ added"
      "symbolItemsFrom env opts rp cm ttl rest (clockReads w) added"
      "distinct (map fst (collection w)) \<longrightarrow> distinct (map fst (collection w'))"
      "r = Returned \<longrightarrow>
         (\<forall>u\<in>set rest. \<not> symConfidence u < opt_confidence opts \<longrightarrow>
            (\<exists>p\<in>set added. \<exists>k. snd p = symbolItem opts rp cm ttl (dateNow env k) u))"
      by blast
    have "symbolItemsFrom env opts rp cm ttl (u # rest) (clockReads w) added"
      using added(2) unfolding symbolItemsFrom_def by auto
    then show ?thesis using added(1,3,4) True by auto
  next
    case False
    let ?w1 = "w\<lparr>clockReads := Suc (clockReads w)\<rparr>"
    let ?item = "symbolItem opts rp cm ttl (dateNow env (clockReads w)) u"
    show ?thesis
    proof (cases "insertOne env ?item ?w1")
      case (Inl e)
      with Cons.prems False have "w' = ?w1" "r = Threw e" by (simp_all add: readClock_def)
      then show ?thesis by (auto simp: symbolItemsFrom_def)
    next
      case (Inr res)
      obtain oid w2 where res: "res = (oid, w2)" by (cases res)
      note ins = insertOne_Inr[OF Inr[unfolded res]]
      let ?w4 = "afterSymbolInsert opts u oid w2"
      have run: "archiveSymbols env opts rp cm ttl rest (Suc n) ?w4 = (r, n', w')"
        using Cons.prems Inr res False by (simp add: readClock_def)
      from Cons.IH[OF run] obtain added where added:
        "collection w' = collection ?w4 @ added"
        "symbolItemsFrom env opts rp cm ttl rest (clockReads ?w4) added"
        "distinct (map fst (collection ?w4)) \<longrightarrow> distinct (map fst (collection w'))"
        "r = Returned \<longrightarrow>
           (\<forall>u\<in>set rest. \<not> symConfidence u < opt_confidence opts \<longrightarrow>
              (\<exists>p\<in>set added. \<exists>k. snd p = symbolItem opts rp cm ttl (dateNow env k) u))"
        by blast
      have c4: "collection ?w4 = collection w @ [(oid, ?item)]"
        using ins(1) by (simp add: afterSymbolInsert_same)
      have k4: "clockReads ?w4 = Suc (clockReads w)"
        using ins(4) by (simp add: afterSymbolInsert_same)
      have 1: "collection w' = collection w @ ((oid, ?item) # added)"
        using added(1) c4 by simp
      have 2: "symbolItemsFrom env opts rp cm ttl (u # rest) (clockReads w) ((oid, ?item) # added)"
        using added(2) False unfolding k4 by (rule symbolItemsFrom_Cons[rotated])
      have 3: "distinct (map fst (collection w)) \<longrightarrow> distinct (map fst (collection w'))"
        using added(3) c4 ins(2) by auto
      have 5: "r = Returned \<longrightarrow>
          (\<forall>u'\<in>set (u # rest). \<not> symConfidence u' < opt_confidence opts \<longrightarrow>
             (\<exists>p\<in>set ((oid, ?item) # added). \<exists>k.
                snd p = symbolItem opts rp cm ttl (dateNow env k) u'))"
        using added(4) by auto
      from 1 2 3 5 show ?thesis by blast
    qed
  qed
qed

lemma archiveSymbols_keeps_files:
  "archiveSymbols env opts rp cm ttl us n w = (r, n', w') \<Longrightarrow> disk w q \<noteq> None
     \<Longrightarrow> disk w' q \<noteq> None"
proof (induction us arbitrary: w n)
  case Nil
  then show ?case by simp
next
  case (Cons u rest)
  show ?case
  proof (cases "symConfidence u < opt_confidence opts")
    case True
    then show ?thesis using Cons by simp
  next
    case False
    let ?w1 = "w\<lparr>clockReads := Suc (clockReads w)\<rparr>"
    let ?item = "symbolItem opts rp cm ttl (dateNow env (clockReads w)) u"
    show ?thesis
    proof (cases "insertOne env ?item ?w1")
      case (Inl e)
      with Cons.prems False show ?thesis by (auto simp: readClock_def)
    next
      case (Inr res)
      obtain oid w2 where res: "res = (oid, w2)" by (cases res)
      note ins = insertOne_Inr[OF Inr[unfolded res]]
      have run: "archiveSymbols env opts rp cm ttl rest (Suc n) (afterSymbolInsert opts u oid w2)
                   = (r, n', w')"
        using Cons.prems Inr res False by (simp add: readClock_def)
      have "disk (afterSymbolInsert opts u oid w2) q \<noteq> None"
        using Cons.prems(2) ins(3) by (intro afterSymbolInsert_disk(1)) simp
      then show ?thesis by (rule Cons.IH[OF run])
    qed
  qed
qed

lemma archiveSymbols_saves_file:
  "archiveSymbols env opts rp cm ttl us n w = (Returned, n', w') \<Longrightarrow> opt_apply opts
     \<Longrightarrow> u \<in> set us \<Longrightarrow> \<not> symConfidence u < opt_confidence opts
     \<Longrightarrow> disk w' (getFilePath (symFile u)) \<noteq> None"
proof (induction us arbitrary: w n)
  case Nil
  then show ?case by simp
next
  case (Cons v rest)
  show ?case
  proof (cases "symConfidence v < opt_confidence opts")
    case True
    then have "u \<in> set rest" using Cons.prems(3,4) by auto
    then show ?thesis using Cons True by simp
  next
    case False
    let ?w1 = "w\<lparr>clockReads := Suc (clockReads w)\<rparr>"
    let ?item = "symbolItem opts rp cm ttl (dateNow env (clockReads w)) v"
    show ?thesis
    proof (cases "insertOne env ?item ?w1")
      case (Inl e)
      with Cons.prems False show ?thesis by (auto simp: readClock_def)
    next
      case (Inr res)
      obtain oid w2 where res: "res = (oid, w2)" by (cases res)
      let ?w4 = "afterSymbolInsert opts v oid w2"
      have run: "archiveSymbols env opts rp cm ttl rest (Suc n) ?w4 = (Returned, n', w')"
        using Cons.prems Inr res False by (simp add: readClock_def)
      show ?thesis
      proof (cases "u = v")
        case True
        have "disk ?w4 (getFilePath (symFile u)) \<noteq> None"
          using Cons.prems(2) True by (simp add: afterSymbolInsert_disk(2))
        then show ?thesis by (rule archiveSymbols_keeps_files[OF run])
      next
        case False
        then have "u \<in> set rest" using Cons.prems(3) by simp
        then show ?thesis using Cons.IH[OF run Cons.prems(2) _ Cons.prems(4)] by simp
      qed
    qed
  qed
qed

lemma logLine_same:
  "collection (logLine e w) = collection w" "clockReads (logLine e w) = clockReads w"
  "disk (logLine e w) = disk w" "idsMade (logLine e w) = idsMade w"
  by (simp_all add: logLine_def)

lemma archiveFiles_outcome:
  "archiveFiles env opts rp cm ttl fs w = (r, w') \<Longrightarrow> r = Returned \<or> (\<exists>e. r = Threw e)"
proof (induction fs arbitrary: w)
  case Nil
  then show ?case by simp
next
  case (Cons sf rest)
  then show ?case
    by (auto simp: readClock_def split: sum.splits prod.splits)
qed

lemma archiveSymbols_outcome:
  "archiveSymbols env opts rp cm ttl us n w = (r, n', w') \<Longrightarrow> r = Returned \<or> (\<exists>e. r = Threw e)"
proof (induction us arbitrary: w n)
  case Nil
  then show ?case by simp
next
  case (Cons u rest)
  then show ?case
    by (auto simp: readClock_def split: sum.splits prod.splits if_splits)
qed

text \<open>The run of \<^verbatim>\<open>scanCommand\<close> past the check of the store URI, phase by phase.\<close>

lemma scanCommand_phases:
  assumes "scanCommand env project opts w = (r, w')" "opt_mongo opts \<noteq> []"
  obtains r1 w1 w2 r2 n w3 where
    "collection w1 = collection w" "clockReads w1 = Suc (clockReads w)" "disk w1 = disk w"
    "archiveFiles env opts (scanRepo env) (scanCommit env) (scanTtl env w)
       (unreachableFiles project opts) w1 = (r1, w2)"
    "r1 \<noteq> Returned \<longrightarrow> r = r1 \<and> w' = w2"
    "r1 = Returned \<longrightarrow>
       archiveSymbols env opts (scanRepo env) (scanCommit env) (scanTtl env w)
         (unusedSymbols (scannedFiles project (opt_srcDir opts))) 0
         (logLine (ArchivingSymbols (length (unusedSymbols (scannedFiles project (opt_srcDir opts))))) w2)
       = (r2, n, w3)
       \<and> r = r2 \<and> collection w' = collection w3 \<and> disk w' = disk w3"
proof -
  let ?w0 = "logLine (CommitLine (scanCommit env))
               (logLine (RepositoryLine (scanRepo env)) (logLine (Scanning (opt_srcDir opts)) w))"
  let ?w1 = "logLine (ArchivingFiles (length (unreachableFiles project opts)))
               (?w0\<lparr>clockReads := Suc (clockReads ?w0)\<rparr>)"
  let ?us = "unusedSymbols (scannedFiles project (opt_srcDir opts))"
  obtain r1 w2 where af: "archiveFiles env opts (scanRepo env) (scanCommit env) (scanTtl env w)
       (unreachableFiles project opts) ?w1 = (r1, w2)" by (cases "archiveFiles env opts (scanRepo env) (scanCommit env) (scanTtl env w)
       (unreachableFiles project opts) ?w1")
  obtain r2 n w3 where as: "archiveSymbols env opts (scanRepo env) (scanCommit env) (scanTtl env w)
         ?us 0 (logLine (ArchivingSymbols (length ?us)) w2) = (r2, n, w3)"
    using prod_cases3 by blast
  have t: "dateNow env (clockReads ?w0) + 1000 * 60 * 60 * 24 * 90 = scanTtl env w"
    by (simp add: scanTtl_def logLine_same)
  have sc: "scanCommand env project opts w =
        (case (r1, w2) of
           (Threw e, w2) \<Rightarrow> (Threw e, w2)
         | (_, w2) \<Rightarrow>
            (case (r2, n, w3) of
               (Threw e, _, w3) \<Rightarrow> (Threw e, w3)
             | (_, archivedCount, w3) \<Rightarrow>
                 (let w4 = logLine (Finished (length (unreachableFiles project opts) + archivedCount)) w3
                  in (Returned, if opt_apply opts then logLine RunGitDiff w4 else w4))))"
    using assms(2) unfolding scanCommand_def Let_def readClock_def
    by (simp only: if_False prod.case t af as)
  show thesis
  proof (rule that[of ?w1 r1 w2 r2 n w3])
    show "collection ?w1 = collection w" by (simp add: logLine_same)
    show "clockReads ?w1 = Suc (clockReads w)" by (simp add: logLine_same)
    show "disk ?w1 = disk w" by (simp add: logLine_same)
    show "archiveFiles env opts (scanRepo env) (scanCommit env) (scanTtl env w)
       (unreachableFiles project opts) ?w1 = (r1, w2)" by (rule af)
    show "r1 \<noteq> Returned \<longrightarrow> r = r1 \<and> w' = w2"
      using archiveFiles_outcome[OF af] assms(1) sc by auto
    show "r1 = Returned \<longrightarrow>
       archiveSymbols env opts (scanRepo env) (scanCommit env) (scanTtl env w) ?us 0
         (logLine (ArchivingSymbols (length ?us)) w2) = (r2, n, w3)
       \<and> r = r2 \<and> collection w' = collection w3 \<and> disk w' = disk w3"
      using archiveSymbols_outcome[OF as] assms(1) sc as
      by (auto simp: Let_def logLine_same)
  qed
qed

lemma fileItemsFrom_mono:
  "fileItemsFrom env opts rp cm ttl fs k0 added \<Longrightarrow> k1 \<le> k0
     \<Longrightarrow> fileItemsFrom env opts rp cm ttl fs k1 added"
  unfolding fileItemsFrom_def by (meson le_trans)

lemma symbolItemsFrom_mono:
  "symbolItemsFrom env opts rp cm ttl us k0 added \<Longrightarrow> k1 \<le> k0
     \<Longrightarrow> symbolItemsFrom env opts rp cm ttl us k1 added"
  unfolding symbolItemsFrom_def by (meson le_trans)

lemma fileItemsFrom_Nil: "fileItemsFrom env opts rp cm ttl fs k0 []"
  by (simp add: fileItemsFrom_def)

lemma symbolItemsFrom_Nil: "symbolItemsFrom env opts rp cm ttl us k0 []"
  by (simp add: symbolItemsFrom_def)

lemma scanCommand_persisted:
  assumes "scanCommand env project opts w = (r, w')"
  shows "\<exists>fileDocs symDocs.
      collection w' = collection w @ fileDocs @ symDocs
      \<and> fileItemsFrom env opts (scanRepo env) (scanCommit env) (scanTtl env w)
            (unreachableFiles project opts) (Suc (clockReads w)) fileDocs
      \<and> symbolItemsFrom env opts (scanRepo env) (scanCommit env) (scanTtl env w)
            (unusedSymbols (scannedFiles project (opt_srcDir opts))) (Suc (clockReads w)) symDocs
      \<and> (distinct (map fst (collection w)) \<longrightarrow> distinct (map fst (collection w')))
      \<and> (r = Returned \<longrightarrow>
            (\<forall>sf\<in>set (unreachableFiles project opts). \<exists>p\<in>set fileDocs. \<exists>k.
               snd p = fileItem opts (scanRepo env) (scanCommit env) (scanTtl env w)
                         (dateNow env k) sf)
          \<and> (\<forall>u\<in>set (unusedSymbols (scannedFiles project (opt_srcDir opts))).
               \<not> symConfidence u < opt_confidence opts \<longrightarrow>
               (\<exists>p\<in>set symDocs. \<exists>k.
                  snd p = symbolItem opts (scanRepo env) (scanCommit env) (scanTtl env w)
                            (dateNow env k) u)))"
proof (cases "opt_mongo opts = []")
  case True
  with assms have "r = Exited 1" "collection w' = collection w"
    by (auto simp: scanCommand_def logLine_same)
  then show ?thesis
    by (intro exI[of _ "[]"]) (simp add: fileItemsFrom_Nil symbolItemsFrom_Nil)
next
  case False
  let ?rp = "scanRepo env" and ?cm = "scanCommit env" and ?ttl = "scanTtl env w"
  let ?us = "unusedSymbols (scannedFiles project (opt_srcDir opts))"
  show ?thesis
  proof (rule scanCommand_phases[OF assms False], goal_cases)
  case ph: (1 r1 w1 w2 r2 n w3)
  from archiveFiles_added[OF ph(4)] obtain fileDocs where fd:
    "collection w2 = collection w1 @ fileDocs"
    "fileItemsFrom env opts ?rp ?cm ?ttl (unreachableFiles project opts) (clockReads w1) fileDocs"
    "distinct (map fst (collection w1)) \<longrightarrow> distinct (map fst (collection w2))"
    "clockReads w1 \<le> clockReads w2"
    "r1 = Returned \<longrightarrow> (\<forall>sf\<in>set (unreachableFiles project opts). \<exists>p\<in>set fileDocs. \<exists>k.
        snd p = fileItem opts ?rp ?cm ?ttl (dateNow env k) sf)"
    by blast
  show ?case
  proof (cases "r1 = Returned")
    case False
    then have e: "r = r1" "w' = w2" using ph(5) by auto
    have 1: "collection w' = collection w @ fileDocs @ []"
      using fd(1) ph(1) e by simp
    have 2: "fileItemsFrom env opts ?rp ?cm ?ttl (unreachableFiles project opts)
               (Suc (clockReads w)) fileDocs"
      using fd(2) ph(2) by simp
    have 3: "distinct (map fst (collection w)) \<longrightarrow> distinct (map fst (collection w'))"
      using fd(3) ph(1) e by simp
    have 4: "r \<noteq> Returned" using e False by simp
    show ?thesis
      apply (rule exI[of _ fileDocs], rule exI[of _ "[]"])
      apply (intro conjI)
          apply (rule 1)
         apply (rule 2)
        apply (rule symbolItemsFrom_Nil)
       apply (rule 3)
      using 4 apply simp
      done
  next
    case True
    let ?w2 = "logLine (ArchivingSymbols (length ?us)) w2"
    have as: "archiveSymbols env opts ?rp ?cm ?ttl ?us 0 ?w2 = (r2, n, w3)"
      and rr: "r = r2" and cc: "collection w' = collection w3"
      using ph(6) True by auto
    from archiveSymbols_added[OF as] obtain symDocs where sd:
      "collection w3 = collection ?w2 @ symDocs"
      "symbolItemsFrom env opts ?rp ?cm ?ttl ?us (clockReads ?w2) symDocs"
      "distinct (map fst (collection ?w2)) \<longrightarrow> distinct (map fst (collection w3))"
      "r2 = Returned \<longrightarrow> (\<forall>u\<in>set ?us. \<not> symConfidence u < opt_confidence opts \<longrightarrow>
          (\<exists>p\<in>set symDocs. \<exists>k. snd p = symbolItem opts ?rp ?cm ?ttl (dateNow env k) u))"
      by blast
    have 1: "collection w' = collection w @ fileDocs @ symDocs"
      using cc sd(1) fd(1) ph(1) by (simp add: logLine_same)
    have "Suc (clockReads w) \<le> clockReads ?w2"
      using fd(4) ph(2) by (simp add: logLine_same)
    then have 2: "symbolItemsFrom env opts ?rp ?cm ?ttl ?us (Suc (clockReads w)) symDocs"
      by (rule symbolItemsFrom_mono[OF sd(2)])
    have 3: "distinct (map fst (collection w)) \<longrightarrow> distinct (map fst (collection w'))"
      using sd(3) fd(3) ph(1) cc by (simp add: logLine_same)
    have 4: "fileItemsFrom env opts ?rp ?cm ?ttl (unreachableFiles project opts)
               (Suc (clockReads w)) fileDocs"
      using fd(2) ph(2) by simp
    have 5: "\<forall>sf\<in>set (unreachableFiles project opts). \<exists>p\<in>set fileDocs. \<exists>k.
        snd p = fileItem opts ?rp ?cm ?ttl (dateNow env k) sf"
      using fd(5) True by simp
    have 6: "r = Returned \<longrightarrow> (\<forall>u\<in>set ?us. \<not> symConfidence u < opt_confidence opts \<longrightarrow>
          (\<exists>p\<in>set symDocs. \<exists>k. snd p = symbolItem opts ?rp ?cm ?ttl (dateNow env k) u))"
      using sd(4) rr by simp
    show ?thesis
      apply (rule exI[of _ fileDocs], rule exI[of _ symDocs])
      apply (intro conjI)
          apply (rule 1)
         apply (rule 4)
        apply (rule 2)
       apply (rule 3)
      using 5 6 apply blast
      done
  qed
  qed
qed

lemma persistedBy_append: "collection w' = collection w @ docs \<Longrightarrow> persistedBy w w' = docs"
  by (simp add: persistedBy_def)

lemma scanCommand_saves:
  assumes "scanCommand env project opts w = (Returned, w')" "opt_apply opts"
    "u \<in> set (unusedSymbols (scannedFiles project (opt_srcDir opts)))"
    "\<not> symConfidence u < opt_confidence opts"
  shows "disk w' (getFilePath (symFile u)) \<noteq> None"
proof -
  have m: "opt_mongo opts \<noteq> []" using assms(1) by (auto simp: scanCommand_def)
  let ?us = "unusedSymbols (scannedFiles project (opt_srcDir opts))"
  show ?thesis
  proof (rule scanCommand_phases[OF assms(1) m], goal_cases)
  case ph: (1 r1 w1 w2 r2 n w3)
  from ph(5) have "r1 = Returned" by auto
  with ph(6) have as: "archiveSymbols env opts (scanRepo env) (scanCommit env) (scanTtl env w) ?us 0
          (logLine (ArchivingSymbols (length ?us)) w2) = (Returned, n, w3)" and d: "disk w' = disk w3"
    by auto
  show ?case using archiveSymbols_saves_file[OF as assms(2,3,4)] d by simp
  qed
qed

lemma unreachableFiles_cong:
  "opt_srcDir o1 = opt_srcDir o2 \<Longrightarrow> opt_entry o1 = opt_entry o2
     \<Longrightarrow> unreachableFiles project o1 = unreachableFiles project o2"
  by (simp add: unreachableFiles_def reachableSet_def entryFiles_def cong: if_cong)

lemma persistedBy_scan:
  assumes "scanCommand env project opts w = (r, w')"
  obtains fileDocs symDocs where
    "persistedBy w w' = fileDocs @ symDocs"
    "fileItemsFrom env opts (scanRepo env) (scanCommit env) (scanTtl env w)
       (unreachableFiles project opts) (Suc (clockReads w)) fileDocs"
    "symbolItemsFrom env opts (scanRepo env) (scanCommit env) (scanTtl env w)
       (unusedSymbols (scannedFiles project (opt_srcDir opts))) (Suc (clockReads w)) symDocs"
proof -
  from scanCommand_persisted[OF assms] obtain fileDocs symDocs where
    "collection w' = collection w @ fileDocs @ symDocs"
    "fileItemsFrom env opts (scanRepo env) (scanCommit env) (scanTtl env w)
       (unreachableFiles project opts) (Suc (clockReads w)) fileDocs"
    "symbolItemsFrom env opts (scanRepo env) (scanCommit env) (scanTtl env w)
       (unusedSymbols (scannedFiles project (opt_srcDir opts))) (Suc (clockReads w)) symDocs"
    by blast
  then show thesis using that[of fileDocs symDocs] by (simp add: persistedBy_append)
qed

lemma nodeType_not_File: "nodeType d \<noteq> File"
  by (simp add: nodeType_def split: SyntaxKind.splits)

lemma in_unusedExports:
  assumes "u \<in> set (unusedExports sf)"
  shows "symFile u = sf" "symConfidence u = 95 / 100" "length (refs (symNode u)) \<le> 1"
    "symType u \<noteq> File"
  using assms by (auto simp: unusedExports_def nodeType_not_File split: if_splits)

lemma in_visitDescendant:
  assumes "u \<in> set (visitDescendant sf n)"
  shows "symFile u = sf" "symConfidence u = 9 / 10" "length (refs (symNode u)) \<le> 1"
    "symType u \<noteq> File" "symNode u = n"
  using assms by (auto simp: visitDescendant_def split: if_splits)

lemma in_unusedLocals:
  assumes "u \<in> set (unusedLocals sf)"
  shows "symFile u = sf" "symConfidence u = 9 / 10" "length (refs (symNode u)) \<le> 1"
    "symType u \<noteq> File" "symNode u \<in> set (forEachDescendant sf)"
  using assms in_visitDescendant[of u sf] by (auto simp: unusedLocals_def)

lemma unusedSymbols_iff:
  "u \<in> set (unusedSymbols files)
     \<longleftrightarrow> (\<exists>sf\<in>set files. u \<in> set (unusedExports sf) \<or> u \<in> set (unusedLocals sf))"
  by (auto simp: unusedSymbols_def)

lemma in_unusedSymbols:
  assumes "u \<in> set (unusedSymbols files)"
  shows "symFile u \<in> set files" "length (refs (symNode u)) \<le> 1" "symType u \<noteq> File"
    "symConfidence u = 95 / 100 \<or> symConfidence u = 9 / 10"
proof -
  from assms obtain sf where sf: "sf \<in> set files"
    "u \<in> set (unusedExports sf) \<or> u \<in> set (unusedLocals sf)"
    unfolding unusedSymbols_iff by blast
  from sf(2) have "symFile u = sf \<and> length (refs (symNode u)) \<le> 1 \<and> symType u \<noteq> File
      \<and> (symConfidence u = 95 / 100 \<or> symConfidence u = 9 / 10)"
    using in_unusedExports[of u sf] in_unusedLocals[of u sf] by blast
  with sf(1) show "symFile u \<in> set files" "length (refs (symNode u)) \<le> 1"
    "symType u \<noteq> File" "symConfidence u = 95 / 100 \<or> symConfidence u = 9 / 10"
    by simp_all
qed



lemma restore_unknown_id:
  assumes "ropt_mongo ropts \<noteq> []" "ObjectId_new idString = Inr oid" "findOne oid w = None"
  shows "restoreCommand env idString ropts w = (Exited 1, logLine (NotFound idString) w)"
  using assms by (simp add: restoreCommand_def)

lemma findOne_member:
  "distinct (map fst (collection w)) \<Longrightarrow> (oid, item) \<in> set (collection w)
     \<Longrightarrow> findOne oid w = Some item"
  by (simp add: findOne_def)

lemma restoreCommand_found:
  assumes "ropt_mongo ropts \<noteq> []" "findOne oid w = Some item"
    "base64 (content item) = toB64 txt"
  shows "restoreCommand env (toHexString oid) ropts w = (Returned, deliver env ropts item txt w)"
  using assms by (simp add: restoreCommand_def ObjectId_roundtrip restore_text)

lemma deliver_effect:
  "collection (deliver env ropts item txt w) = collection w"
  "ropt_output ropts = None \<Longrightarrow> console (deliver env ropts item txt w)
     = console w @ [RestoredFrom (itemType item) (nameOrFile item) (path item), Rule 50,
                    Printed txt, Rule 50]"
  "ropt_output ropts = None \<Longrightarrow> disk (deliver env ropts item txt w) = disk w"
  "ropt_output ropts = Some out \<Longrightarrow> out \<noteq> [] \<Longrightarrow>
     disk (deliver env ropts item txt w) (pathResolve env out) = Some txt"
  by (simp_all add: deliver_def printRestored_def writeRestored_def logLine_def
        writeFileSync_def Let_def split: option.splits)

section \<open>The small project, evaluated\<close>

lemmas demo_defs = demoProject_def indexFile_def libFile_def deadFile_def testFile_def
  helperNode_def mainNode_def unusedNode_def

lemma demo_opts:
  "opt_srcDir demoOptions = ''src''" "opt_mongo demoOptions = ''mongodb://localhost''"
  "opt_apply demoOptions" "opt_confidence demoOptions = 9 / 10" "opt_entry demoOptions = []"
  by (simp_all add: demoOptions_def)

lemma demo_scannedFiles:
  "scannedFiles demoProject ''src'' = [indexFile, libFile, deadFile, testFile]"
  by (simp add: scannedFiles_def demo_defs startsWith_def)

lemma demo_norm:
  "norm_path indexFile = ''/proj/src/index.ts''" "norm_path libFile = ''/proj/src/.lib.ts''"
  "norm_path deadFile = ''/proj/src/dead.ts''" "norm_path testFile = ''/proj/src/a.test.ts''"
  by (simp_all add: norm_path_def replaceBackslashes_def demo_defs)

lemma demo_sourceByPath:
  "sourceByPath [indexFile, libFile, deadFile, testFile] =
     [(''/proj/src/index.ts'', indexFile), (''/proj/src/.lib.ts'', libFile),
      (''/proj/src/dead.ts'', deadFile), (''/proj/src/a.test.ts'', testFile)]"
  by (simp add: sourceByPath_def Map_of_entries_def demo_norm)

lemma demo_rel:
  "rel indexFile ''src'' = ''src/index.ts''" "rel libFile ''src'' = ''src/.lib.ts''"
  "rel deadFile ''src'' = ''src/dead.ts''" "rel testFile ''src'' = ''src/a.test.ts''"
  by (simp_all add: rel_def demo_norm startsWith_def str_slice_def)

lemma demo_entryFiles:
  "entryFiles demoProject demoOptions [indexFile, libFile, deadFile, testFile] = [indexFile]"
  by (simp add: entryFiles_def demo_opts defaultEntrypoints_def demo_rel map_filter_def
        demoProject_def)

lemma demo_resolve_lib:
  "resolveImport indexFile ''.lib''
     [(''/proj/src/index.ts'', indexFile), (''/proj/src/.lib.ts'', libFile),
      (''/proj/src/dead.ts'', deadFile), (''/proj/src/a.test.ts'', testFile)] = Some libFile"
  by (simp add: resolveImport_def startsWith_def tryPaths_def endsWith_def
        replaceBackslashes_def indexFile_def)

lemma demo_resolve_react: "resolveImport indexFile ''react'' m = None"
  by (simp add: resolveImport_def startsWith_def)

lemma demo_imports:
  "getImportDeclarations indexFile = [''.lib'', ''react'']"
  "getImportDeclarations libFile = []"
  by (simp_all add: demo_defs)

lemma demo_reachable:
  "reachableSet demoProject demoOptions = {''/proj/src/index.ts'', ''/proj/src/.lib.ts''}"
  by (simp add: reachableSet_def demo_opts demo_scannedFiles demo_sourceByPath
        demo_entryFiles pushedImports_def map_filter_def demo_imports demo_resolve_lib
        demo_resolve_react demo_norm insert_commute)

lemma demo_keep:
  "\<not> isDefinitelyKeep indexFile" "\<not> isDefinitelyKeep libFile"
  "\<not> isDefinitelyKeep deadFile" "isDefinitelyKeep testFile"
  by (simp_all add: isDefinitelyKeep_def demo_norm startsWith_def)

lemma demo_unreachable: "unreachableFiles demoProject demoOptions = [deadFile]"
  by (simp add: unreachableFiles_def demo_reachable demo_opts demo_scannedFiles demo_norm
        demo_keep)

lemma demo_unused:
  "unusedSymbols [indexFile, libFile, deadFile, testFile] = [exportedSymbol, helperSymbol]"
  by (simp add: unusedSymbols_def unusedExports_def unusedLocals_def visitDescendant_def
        isFunctionDeclaration_def isClassDeclaration_def isVariableDeclaration_def
        isMethodDeclaration_def isExported_def isExportedVar_def refs_def readableName_def
        orAnonymous_def nodeType_def exportedSymbol_def helperSymbol_def demo_defs)

lemma demo_env:
  "scanRepo demoEnv = ''local''" "scanCommit demoEnv = ''unknown''"
  "dateNow demoEnv k = 1000 + 5 * int k" "newObjectId demoEnv k = of_nat (Suc k)"
  by (simp_all add: scanRepo_def scanCommit_def demoEnv_def safeExec_def trim_def orElse_def)

lemma demo_world:
  "collection demoWorld = []" "clockReads demoWorld = 0" "idsMade demoWorld = 0"
  by (simp_all add: demoWorld_def)

lemma demo_dead:
  "getFilePath deadFile = ''/proj/src/dead.ts''" "getFullText deadFile = ''function helper() {}''"
  "getFilePath indexFile = ''/proj/src/index.ts''"
  by (simp_all add: deadFile_def indexFile_def)

lemma demo_scan:
  "fst (scanCommand demoEnv demoProject demoOptions demoWorld) = Returned"
  "collection (snd (scanCommand demoEnv demoProject demoOptions demoWorld)) =
     [(1, fileItem demoOptions ''local'' ''unknown'' 7776001000 1005 deadFile),
      (2, symbolItem demoOptions ''local'' ''unknown'' 7776001000 1010 exportedSymbol),
      (3, symbolItem demoOptions ''local'' ''unknown'' 7776001000 1015 helperSymbol)]"
  "disk (snd (scanCommand demoEnv demoProject demoOptions demoWorld)) ''/proj/src/dead.ts''
     = Some ''function helper() {}''"
  by (simp_all add: scanCommand_def demo_opts demo_unreachable demo_scannedFiles demo_unused
        demo_env demo_world readClock_def insertOne_def Let_def logLine_def
        afterFileInsert_def afterSymbolInsert_def rmSync_def saveSync_def writeFileSync_def
        helperSymbol_def exportedSymbol_def demo_dead)

lemma strict_opts:
  "opt_srcDir strictOptions = ''src''" "opt_mongo strictOptions = ''mongodb://localhost''"
  "opt_apply strictOptions" "opt_confidence strictOptions = 1" "opt_entry strictOptions = []"
  by (simp_all add: strictOptions_def demoOptions_def)

lemma strict_unreachable: "unreachableFiles demoProject strictOptions = [deadFile]"
  using unreachableFiles_cong[of strictOptions demoOptions demoProject]
  by (simp add: strict_opts demo_opts demo_unreachable)

lemma strict_scan:
  "fst (scanCommand demoEnv demoProject strictOptions demoWorld) = Returned"
  by (simp add: scanCommand_def strict_opts strict_unreachable demo_scannedFiles demo_unused
        demo_env demo_world readClock_def insertOne_def Let_def logLine_def
        afterFileInsert_def rmSync_def demo_dead helperSymbol_def exportedSymbol_def)

lemma demo_persisted:
  "persistedBy demoWorld (snd (scanCommand demoEnv demoProject demoOptions demoWorld)) =
     [(1, fileItem demoOptions ''local'' ''unknown'' 7776001000 1005 deadFile),
      (2, symbolItem demoOptions ''local'' ''unknown'' 7776001000 1010 exportedSymbol),
      (3, symbolItem demoOptions ''local'' ''unknown'' 7776001000 1015 helperSymbol)]"
  by (simp add: persistedBy_def demo_scan demo_world)


lemma demo_findings:
  "unusedExports indexFile = [exportedSymbol]" "unusedLocals indexFile = []"
  "unusedExports deadFile = []" "unusedLocals deadFile = [helperSymbol]"
  by (simp_all add: unusedExports_def unusedLocals_def visitDescendant_def
        isFunctionDeclaration_def isClassDeclaration_def isVariableDeclaration_def
        isMethodDeclaration_def isExported_def isExportedVar_def refs_def readableName_def
        orAnonymous_def nodeType_def exportedSymbol_def helperSymbol_def demo_defs)

lemma demo_restore:
  "ropt_mongo demoRestore \<noteq> []" "ropt_output demoRestore = None"
  by (simp_all add: demoRestore_def)

text \<open>
  \<^verbatim>\<open>resolveImport\<close> joins the directory and the specifier as text: for \<^verbatim>\<open>./dead\<close> in
  \<^verbatim>\<open>/proj/src\<close> the candidates are \<^verbatim>\<open>/proj/src/./dead\<close>, \<^verbatim>\<open>/proj/src/./dead.ts\<close> and so on, and no
  key of the map ends with one of them, although \<^verbatim>\<open>/proj/src/dead.ts\<close> is a file of the scan.
\<close>

lemma demo_resolve_dot_slash:
  "resolveImport indexFile ''./dead''
     [(''/proj/src/index.ts'', indexFile), (''/proj/src/.lib.ts'', libFile),
      (''/proj/src/dead.ts'', deadFile), (''/proj/src/a.test.ts'', testFile)] = None"
  by (simp add: resolveImport_def startsWith_def tryPaths_def endsWith_def
        replaceBackslashes_def indexFile_def)

lemma import_files:
  "scannedFiles importProject ''src'' = [mainFile, usedFile]"
  "norm_path mainFile = ''/proj/src/index.ts''" "norm_path usedFile = ''/proj/src/used.ts''"
  "getImportDeclarations mainFile = [''./used'']"
  "\<not> isDefinitelyKeep usedFile"
  by (simp_all add: scannedFiles_def importProject_def mainFile_def usedFile_def
        startsWith_def norm_path_def replaceBackslashes_def isDefinitelyKeep_def)

lemma import_entry:
  "entryFiles importProject demoOptions [mainFile, usedFile] = [mainFile]"
  by (simp add: entryFiles_def demo_opts defaultEntrypoints_def rel_def import_files
        startsWith_def str_slice_def map_filter_def importProject_def)

section \<open>The claims\<close>

text \<open>
  C10. A source file whose path matches one of the keep patterns of \<^verbatim>\<open>isDefinitelyKeep\<close>
  (type declarations, \<^verbatim>\<open>.types.ts\<close>, stories, tests, \<^verbatim>\<open>__mocks__\<close>, config files) is never in the
  list of unreachable files, whether or not the traversal reached it.
\<close>

theorem keep_exempt_never_unreachable:
  "isDefinitelyKeep sf \<Longrightarrow> sf \<notin> set (unreachableFiles project opts)"
  by (simp add: unreachableFiles_def)

text \<open>
  The test file of the small project is scanned and not reachable, and still is not listed.
\<close>

theorem keep_exempt_never_unreachable_witness:
  "isDefinitelyKeep testFile
   \<and> testFile \<in> set (scannedFiles demoProject (opt_srcDir demoOptions))
   \<and> norm_path testFile \<notin> reachableSet demoProject demoOptions
   \<and> testFile \<notin> set (unreachableFiles demoProject demoOptions)"
  using keep_exempt_never_unreachable[of testFile demoProject demoOptions]
  by (simp add: demo_keep demo_reachable demo_norm demo_scannedFiles demo_opts)

text \<open>
  C1. The claim: every document a scan persists has a confidence at or above the scan's
  threshold, so that with threshold 1 nothing below 1 is persisted, an unreachable file at
  0.98 included. The code holds the threshold against the unused symbols only (line 230);
  the loop over the unreachable files (lines 202 to 223) inserts each file at 0.98 without
  looking at it. So whenever the threshold is above 0.98 and the run returns, each
  unreachable file is in the store with a confidence below the threshold.
\<close>

theorem file_below_threshold_is_persisted:
  assumes "scanCommand env project opts w = (Returned, w')"
    and "sf \<in> set (unreachableFiles project opts)"
    and "98 / 100 < opt_confidence opts"
  shows "\<exists>p\<in>set (persistedBy w w'). itemType (snd p) = File
           \<and> path (snd p) = rel sf (opt_srcDir opts)
           \<and> confidence (snd p) = 98 / 100
           \<and> confidence (snd p) < opt_confidence opts"
proof -
  from scanCommand_persisted[OF assms(1)] obtain fileDocs symDocs where docs:
    "collection w' = collection w @ fileDocs @ symDocs"
    "\<forall>sf\<in>set (unreachableFiles project opts). \<exists>p\<in>set fileDocs. \<exists>k.
        snd p = fileItem opts (scanRepo env) (scanCommit env) (scanTtl env w) (dateNow env k) sf"
    by blast
  from docs(2) assms(2) obtain p k where p: "p \<in> set fileDocs"
    "snd p = fileItem opts (scanRepo env) (scanCommit env) (scanTtl env w) (dateNow env k) sf"
    by blast
  have mem: "p \<in> set (persistedBy w w')"
    using p(1) persistedBy_append[OF docs(1)] by simp
  have fields: "itemType (snd p) = File" "path (snd p) = rel sf (opt_srcDir opts)"
    "confidence (snd p) = 98 / 100"
    by (simp_all add: p(2) fileItem_def)
  have "confidence (snd p) < opt_confidence opts"
    using assms(3) by (simp only: fields(3))
  with mem fields show ?thesis by blast
qed

theorem file_below_threshold_is_persisted_witness:
  "deadFile \<in> set (unreachableFiles demoProject strictOptions)
   \<and> 98 / 100 < opt_confidence strictOptions
   \<and> fst (scanCommand demoEnv demoProject strictOptions demoWorld) = Returned
   \<and> (\<exists>p\<in>set (persistedBy demoWorld (snd (scanCommand demoEnv demoProject strictOptions demoWorld))).
         itemType (snd p) = File \<and> path (snd p) = ''src/dead.ts''
         \<and> confidence (snd p) = 98 / 100 \<and> confidence (snd p) < 1)"
proof -
  have run: "scanCommand demoEnv demoProject strictOptions demoWorld
          = (Returned, snd (scanCommand demoEnv demoProject strictOptions demoWorld))"
    using strict_scan by (metis prod.collapse)
  have u: "deadFile \<in> set (unreachableFiles demoProject strictOptions)"
    by (simp add: strict_unreachable)
  have c: "98 / 100 < opt_confidence strictOptions" by (simp add: strict_opts)
  show ?thesis
    using file_below_threshold_is_persisted[OF run u c] u c strict_scan
    by (simp add: strict_opts demo_rel)
qed






text \<open>
  C2. The claim: the usage detector looks at the reachable source files only, so that a
  declaration of a file outside the reachable set is never reported, and never archived, as
  an unused symbol. The comment of line 119 says the same (\<^verbatim>\<open>Within reachable files: find
  unused stuff\<close>), but the loop of line 122 runs over \<^verbatim>\<open>files\<close>, every file under the source
  directory. So every finding of an unreachable file is in \<^verbatim>\<open>unusedSymbols\<close>, and a run that
  returns archives it when its confidence passes the threshold.
\<close>

theorem unreachable_file_symbols_are_reported:
  assumes "sf \<in> set (unreachableFiles project opts)"
    and "u \<in> set (unusedExports sf) \<union> set (unusedLocals sf)"
  shows "norm_path sf \<notin> reachableSet project opts
         \<and> symFile u = sf
         \<and> u \<in> set (unusedSymbols (scannedFiles project (opt_srcDir opts)))
         \<and> (scanCommand env project opts w = (Returned, w')
              \<and> \<not> symConfidence u < opt_confidence opts
            \<longrightarrow> (\<exists>p\<in>set (persistedBy w w'). \<exists>t.
                   snd p = symbolItem opts (scanRepo env) (scanCommit env) (scanTtl env w) t u))"
proof -
  have sf: "sf \<in> set (scannedFiles project (opt_srcDir opts))"
    "norm_path sf \<notin> reachableSet project opts"
    using assms(1) by (simp_all add: unreachableFiles_def)
  have owner: "symFile u = sf"
    using assms(2) in_unusedExports(1)[of u sf] in_unusedLocals(1)[of u sf] by blast
  have rep: "u \<in> set (unusedSymbols (scannedFiles project (opt_srcDir opts)))"
    unfolding unusedSymbols_iff using sf(1) assms(2) by blast
  have arch: "\<exists>p\<in>set (persistedBy w w'). \<exists>t.
        snd p = symbolItem opts (scanRepo env) (scanCommit env) (scanTtl env w) t u"
    if run: "scanCommand env project opts w = (Returned, w')"
      and ok: "\<not> symConfidence u < opt_confidence opts"
  proof -
    from scanCommand_persisted[OF run] obtain fileDocs symDocs where docs:
      "collection w' = collection w @ fileDocs @ symDocs"
      "\<forall>u\<in>set (unusedSymbols (scannedFiles project (opt_srcDir opts))).
         \<not> symConfidence u < opt_confidence opts \<longrightarrow>
         (\<exists>p\<in>set symDocs. \<exists>k.
            snd p = symbolItem opts (scanRepo env) (scanCommit env) (scanTtl env w)
                      (dateNow env k) u)"
      by blast
    from docs(2) rep ok obtain p k where p: "p \<in> set symDocs"
      "snd p = symbolItem opts (scanRepo env) (scanCommit env) (scanTtl env w) (dateNow env k) u"
      by blast
    have "p \<in> set (persistedBy w w')"
      using p(1) persistedBy_append[OF docs(1)] by simp
    with p(2) show ?thesis by blast
  qed
  show ?thesis using sf(2) owner rep arch by blast
qed

text \<open>
  In the small project \<^verbatim>\<open>dead.ts\<close> is unreachable, and its function \<^verbatim>\<open>helper\<close> is reported
  and archived.
\<close>

theorem unreachable_file_symbols_are_reported_witness:
  "deadFile \<in> set (unreachableFiles demoProject demoOptions)
   \<and> helperSymbol \<in> set (unusedExports deadFile) \<union> set (unusedLocals deadFile)
   \<and> norm_path deadFile \<notin> reachableSet demoProject demoOptions
   \<and> symFile helperSymbol = deadFile
   \<and> helperSymbol \<in> set (unusedSymbols (scannedFiles demoProject (opt_srcDir demoOptions)))
   \<and> (\<exists>p\<in>set (persistedBy demoWorld (snd (scanCommand demoEnv demoProject demoOptions demoWorld))).
         itemType (snd p) = Function \<and> name (snd p) = Some ''helper''
         \<and> path (snd p) = ''src/dead.ts'')"
proof -
  have u: "deadFile \<in> set (unreachableFiles demoProject demoOptions)"
    by (simp add: demo_unreachable)
  have h: "helperSymbol \<in> set (unusedExports deadFile) \<union> set (unusedLocals deadFile)"
    by (simp add: demo_findings)
  show ?thesis
    using unreachable_file_symbols_are_reported[OF u h, of demoEnv demoWorld
      "snd (scanCommand demoEnv demoProject demoOptions demoWorld)"] u h
    by (simp add: demo_persisted symbolItem_def helperSymbol_def demo_rel demo_opts
          fileItem_def exportedSymbol_def)
qed



text \<open>
  C4. The claim: the reachable set holds every entry file and is closed under one step of
  import resolution, a relative specifier being tried with the candidates as-is, \<^verbatim>\<open>.ts\<close>,
  \<^verbatim>\<open>.tsx\<close>, \<^verbatim>\<open>.js\<close>, \<^verbatim>\<open>.jsx\<close>, \<^verbatim>\<open>/index.ts\<close>, \<^verbatim>\<open>/index.tsx\<close>. \<^verbatim>\<open>resolveImport\<close> builds each candidate as
  the text \<^verbatim>\<open>dir + "/" + spec + suffix\<close> (line 382) and asks whether a path of the map ends with
  it (line 384). For a specifier that starts with \<^verbatim>\<open>./\<close> or \<^verbatim>\<open>../\<close> the candidate holds the
  segment \<^verbatim>\<open>/./\<close> or \<^verbatim>\<open>/../\<close>, which no path of a source file holds. So when the imports of the
  entry files are relative ones, nothing is resolved and the reachable set is the set of the
  entry files alone: a file that an entry file imports is left outside.
\<close>

theorem relative_imports_are_not_followed:
  fixes project opts
  defines "F \<equiv> scannedFiles project (opt_srcDir opts)"
  defines "E \<equiv> entryFiles project opts F"
  assumes paths: "\<forall>f\<in>set F. \<not> str_includes (norm_path f) ''/./''
                     \<and> \<not> str_includes (norm_path f) ''/../''"
    and specs: "\<forall>e\<in>set E. \<forall>spec\<in>set (getImportDeclarations e).
                  startsWith spec ''./'' \<or> startsWith spec ''../''"
  shows "reachableSet project opts = norm_path ` set E"
proof -
  have keys: "\<forall>k\<in>fst ` set (sourceByPath F).
                \<not> str_includes k ''/./'' \<and> \<not> str_includes k ''/../''"
  proof
    fix k assume "k \<in> fst ` set (sourceByPath F)"
    then have "k \<in> norm_path ` set F" using sourceByPath_keys[of F] by (rule subsetD[rotated])
    then obtain f where f: "f \<in> set F" and k: "k = norm_path f" by (rule imageE)
    show "\<not> str_includes k ''/./'' \<and> \<not> str_includes k ''/../''"
      unfolding k by (rule bspec[OF paths f])
  qed
  have "\<forall>sf\<in>set (rev E). \<forall>spec\<in>set (getImportDeclarations sf).
          resolveImport sf spec (sourceByPath F) = None"
  proof (intro ballI)
    fix sf spec
    assume "sf \<in> set (rev E)" and sp: "spec \<in> set (getImportDeclarations sf)"
    then have "sf \<in> set E" by simp
    then have "\<forall>spec\<in>set (getImportDeclarations sf).
                 startsWith spec ''./'' \<or> startsWith spec ''../''"
      by (rule bspec[OF specs])
    then have "startsWith spec ''./'' \<or> startsWith spec ''../''"
      using sp by (rule bspec)
    then show "resolveImport sf spec (sourceByPath F) = None"
      using keys by (rule resolveImport_relative_None)
  qed
  then have "traverse (sourceByPath F) (rev E) {} = {} \<union> norm_path ` set (rev E)"
    by (rule traverse_no_pushes)
  then show ?thesis by (simp add: reachableSet_def F_def E_def Let_def)
qed

text \<open>
  \<^verbatim>\<open>index.ts\<close> imports \<^verbatim>\<open>./used\<close> and \<^verbatim>\<open>/proj/src/used.ts\<close> is loaded: the candidate \<^verbatim>\<open>./used.ts\<close>
  names it, yet \<^verbatim>\<open>used.ts\<close> is not reachable and is listed as an unreachable file.
\<close>

theorem relative_imports_are_not_followed_witness:
  "entryFiles importProject demoOptions (scannedFiles importProject (opt_srcDir demoOptions))
     = [mainFile]
   \<and> ''./used'' \<in> set (getImportDeclarations mainFile)
   \<and> getFilePath usedFile = ''/proj/src/used.ts''
   \<and> usedFile \<in> set (scannedFiles importProject (opt_srcDir demoOptions))
   \<and> reachableSet importProject demoOptions = {''/proj/src/index.ts''}
   \<and> norm_path usedFile \<notin> reachableSet importProject demoOptions
   \<and> usedFile \<in> set (unreachableFiles importProject demoOptions)"
proof -
  have e: "entryFiles importProject demoOptions
             (scannedFiles importProject (opt_srcDir demoOptions)) = [mainFile]"
    by (simp add: demo_opts import_files import_entry)
  have paths: "\<forall>f\<in>set (scannedFiles importProject (opt_srcDir demoOptions)).
      \<not> str_includes (norm_path f) ''/./'' \<and> \<not> str_includes (norm_path f) ''/../''"
    by (simp add: demo_opts import_files startsWith_def)
  have specs: "\<forall>e\<in>set (entryFiles importProject demoOptions
                   (scannedFiles importProject (opt_srcDir demoOptions))).
      \<forall>spec\<in>set (getImportDeclarations e). startsWith spec ''./'' \<or> startsWith spec ''../''"
    by (simp add: e import_files startsWith_def)
  have r: "reachableSet importProject demoOptions = {''/proj/src/index.ts''}"
    using relative_imports_are_not_followed[OF paths specs] by (simp add: e import_files)
  have u: "usedFile \<in> set (unreachableFiles importProject demoOptions)"
    by (simp add: unreachableFiles_def r demo_opts import_files)
  show ?thesis
    apply (intro conjI)
          apply (rule e)
         apply (simp add: import_files)
        apply (simp add: usedFile_def)
       apply (simp add: demo_opts import_files)
      apply (rule r)
     apply (simp add: r import_files)
    apply (rule u)
    done
qed

text \<open>
  C5. Round trip. Every document a scan persisted was built from an unreachable file or
  from an unused symbol, and holds the base64 encoding of that file's full text or of that
  node's text. In any world whose store is the one the scan left (the ids of the store
  being distinct before the scan, as the store guarantees), \<^verbatim>\<open>ck restore\<close> with the printed
  id of the document returns and delivers exactly that text: to the console without
  \<^verbatim>\<open>--output\<close>, to the resolved path with it. The command leaves the store as it was, so
  the world after it satisfies the same hypothesis and a second restore delivers the same
  text.
\<close>

theorem restore_roundtrip:
  assumes scan: "scanCommand env project opts w = (r, w')"
    and ids: "distinct (map fst (collection w))"
    and p: "p \<in> set (persistedBy w w')"
    and store: "collection w2 = collection w'"
    and uri: "ropt_mongo ropts \<noteq> []"
  shows "\<exists>body.
      ((\<exists>sf\<in>set (unreachableFiles project opts). \<exists>t.
           snd p = fileItem opts (scanRepo env) (scanCommit env) (scanTtl env w) t sf
           \<and> body = getFullText sf)
       \<or> (\<exists>u\<in>set (unusedSymbols (scannedFiles project (opt_srcDir opts))). \<exists>t.
           snd p = symbolItem opts (scanRepo env) (scanCommit env) (scanTtl env w) t u
           \<and> body = getText (symNode u)))
      \<and> base64 (content (snd p)) = toB64 body
      \<and> restoreCommand env2 (toHexString (fst p)) ropts w2
           = (Returned, deliver env2 ropts (snd p) body w2)
      \<and> collection (deliver env2 ropts (snd p) body w2) = collection w'
      \<and> (ropt_output ropts = None \<longrightarrow>
            console (deliver env2 ropts (snd p) body w2)
              = console w2 @ [RestoredFrom (itemType (snd p)) (nameOrFile (snd p)) (path (snd p)),
                              Rule 50, Printed body, Rule 50]
            \<and> disk (deliver env2 ropts (snd p) body w2) = disk w2)
      \<and> (\<forall>out. ropt_output ropts = Some out \<and> out \<noteq> [] \<longrightarrow>
            disk (deliver env2 ropts (snd p) body w2) (pathResolve env2 out) = Some body)"
proof -
  from scanCommand_persisted[OF scan] obtain fileDocs symDocs where docs:
    "collection w' = collection w @ fileDocs @ symDocs"
    "fileItemsFrom env opts (scanRepo env) (scanCommit env) (scanTtl env w)
       (unreachableFiles project opts) (Suc (clockReads w)) fileDocs"
    "symbolItemsFrom env opts (scanRepo env) (scanCommit env) (scanTtl env w)
       (unusedSymbols (scannedFiles project (opt_srcDir opts))) (Suc (clockReads w)) symDocs"
    "distinct (map fst (collection w)) \<longrightarrow> distinct (map fst (collection w'))"
    by blast
  have pers: "persistedBy w w' = fileDocs @ symDocs"
    by (rule persistedBy_append[OF docs(1)])
  have "p \<in> set (collection w')" using p pers docs(1) by simp
  then have "(fst p, snd p) \<in> set (collection w2)" by (simp add: store)
  moreover have "distinct (map fst (collection w2))" using docs(4) ids store by simp
  ultimately have found: "findOne (fst p) w2 = Some (snd p)"
    by (rule findOne_member[rotated])
  from p pers consider "p \<in> set fileDocs" | "p \<in> set symDocs" by auto
  then obtain body where body:
    "(\<exists>sf\<in>set (unreachableFiles project opts). \<exists>t.
         snd p = fileItem opts (scanRepo env) (scanCommit env) (scanTtl env w) t sf
         \<and> body = getFullText sf)
     \<or> (\<exists>u\<in>set (unusedSymbols (scannedFiles project (opt_srcDir opts))). \<exists>t.
         snd p = symbolItem opts (scanRepo env) (scanCommit env) (scanTtl env w) t u
         \<and> body = getText (symNode u))"
  proof cases
    case 1
    with docs(2) obtain sf k where "sf \<in> set (unreachableFiles project opts)"
      "snd p = fileItem opts (scanRepo env) (scanCommit env) (scanTtl env w) (dateNow env k) sf"
      unfolding fileItemsFrom_def by blast
    then show ?thesis using that[of "getFullText sf"] by blast
  next
    case 2
    with docs(3) obtain u k where
      "u \<in> set (unusedSymbols (scannedFiles project (opt_srcDir opts)))"
      "snd p = symbolItem opts (scanRepo env) (scanCommit env) (scanTtl env w) (dateNow env k) u"
      unfolding symbolItemsFrom_def by blast
    then show ?thesis using that[of "getText (symNode u)"] by blast
  qed
  have b64: "base64 (content (snd p)) = toB64 body"
    using body by (auto simp: fileItem_def symbolItem_def)
  have run: "restoreCommand env2 (toHexString (fst p)) ropts w2
           = (Returned, deliver env2 ropts (snd p) body w2)"
    by (rule restoreCommand_found[OF uri found b64])
  have same: "collection (deliver env2 ropts (snd p) body w2) = collection w'"
    by (simp add: deliver_effect(1) store)
  have shown: "ropt_output ropts = None \<longrightarrow>
            console (deliver env2 ropts (snd p) body w2)
              = console w2 @ [RestoredFrom (itemType (snd p)) (nameOrFile (snd p)) (path (snd p)),
                              Rule 50, Printed body, Rule 50]
            \<and> disk (deliver env2 ropts (snd p) body w2) = disk w2"
    using deliver_effect(2,3) by blast
  have written: "\<forall>out. ropt_output ropts = Some out \<and> out \<noteq> [] \<longrightarrow>
            disk (deliver env2 ropts (snd p) body w2) (pathResolve env2 out) = Some body"
    using deliver_effect(4) by blast
  show ?thesis
    apply (rule exI[of _ body])
    apply (intro conjI)
         apply (rule body)
        apply (rule b64)
       apply (rule run)
      apply (rule same)
     apply (rule shown)
    apply (rule written)
    done
qed

text \<open>
  The first document of the small project's scan is the unreachable \<^verbatim>\<open>dead.ts\<close>; restoring
  it by its id prints the text of the file.
\<close>

theorem restore_roundtrip_witness:
  "distinct (map fst (collection demoWorld))
   \<and> (1, fileItem demoOptions ''local'' ''unknown'' 7776001000 1005 deadFile)
       \<in> set (persistedBy demoWorld (snd (scanCommand demoEnv demoProject demoOptions demoWorld)))
   \<and> ropt_mongo demoRestore \<noteq> []
   \<and> getFullText deadFile = ''function helper() {}''
   \<and> restoreCommand demoEnv (toHexString 1) demoRestore
         (snd (scanCommand demoEnv demoProject demoOptions demoWorld))
       = (Returned,
          deliver demoEnv demoRestore
            (fileItem demoOptions ''local'' ''unknown'' 7776001000 1005 deadFile)
            ''function helper() {}'' (snd (scanCommand demoEnv demoProject demoOptions demoWorld)))
   \<and> console (deliver demoEnv demoRestore
            (fileItem demoOptions ''local'' ''unknown'' 7776001000 1005 deadFile)
            ''function helper() {}'' (snd (scanCommand demoEnv demoProject demoOptions demoWorld)))
       = console (snd (scanCommand demoEnv demoProject demoOptions demoWorld))
         @ [RestoredFrom File ''file'' ''src/dead.ts'', Rule 50,
            Printed ''function helper() {}'', Rule 50]"
proof -
  let ?W = "snd (scanCommand demoEnv demoProject demoOptions demoWorld)"
  let ?item = "fileItem demoOptions ''local'' ''unknown'' 7776001000 1005 deadFile"
  have run: "scanCommand demoEnv demoProject demoOptions demoWorld = (Returned, ?W)"
    using demo_scan(1) by (metis prod.collapse)
  have ids: "distinct (map fst (collection demoWorld))" by (simp add: demo_world)
  have mem: "(1, ?item) \<in> set (persistedBy demoWorld ?W)" by (simp add: demo_persisted)
  have uri: "ropt_mongo demoRestore \<noteq> []" by (rule demo_restore(1))
  from restore_roundtrip[OF run ids mem refl uri, of demoEnv]
  obtain body where body:
    "base64 (content (snd (1 :: ObjectId, ?item))) = toB64 body"
    "restoreCommand demoEnv (toHexString (fst (1 :: ObjectId, ?item))) demoRestore ?W
       = (Returned, deliver demoEnv demoRestore (snd (1 :: ObjectId, ?item)) body ?W)"
    by blast
  have "toB64 (getFullText deadFile) = toB64 body"
    using body(1) by (simp add: fileItem_def)
  then have "Buffer_toString_utf8 (base64Decode (toB64 (getFullText deadFile)))
               = Buffer_toString_utf8 (base64Decode (toB64 body))"
    by simp
  then have b: "body = ''function helper() {}''"
    by (simp add: restore_text demo_dead)
  have r: "restoreCommand demoEnv (toHexString 1) demoRestore ?W
       = (Returned, deliver demoEnv demoRestore ?item ''function helper() {}'' ?W)"
    using body(2) by (simp add: b)
  have c: "console (deliver demoEnv demoRestore ?item ''function helper() {}'' ?W)
       = console ?W @ [RestoredFrom File ''file'' ''src/dead.ts'', Rule 50,
            Printed ''function helper() {}'', Rule 50]"
    by (simp add: deliver_effect(2)[OF demo_restore(2)] fileItem_def nameOrFile_def
          demo_rel demo_opts)
  show ?thesis
    apply (intro conjI)
         apply (rule ids)
        apply (rule mem)
       apply (rule uri)
      apply (rule demo_dead(2))
     apply (rule r)
    apply (rule c)
    done
qed

text \<open>
  C6. The claim: with \<^verbatim>\<open>--apply\<close>, the file of an archived unused symbol is left as it is on
  disk and the case is reported apart from a deletion, while every archived unreachable
  file is deleted from the file system. The symbol round saves the symbol's file
  (\<^verbatim>\<open>u.file.saveSync()\<close>, line 258), and the symbols come from every scanned file, the
  unreachable ones included (line 122, see C2), while all files are removed before the
  first symbol round starts (lines 202 to 223). So an unreachable file one of whose symbols
  is archived is removed and then written again: after the run it is on disk.
\<close>

theorem applied_scan_leaves_deleted_file_on_disk:
  assumes "scanCommand env project opts w = (Returned, w')"
    and "opt_apply opts"
    and "sf \<in> set (unreachableFiles project opts)"
    and "u \<in> set (unusedSymbols (scannedFiles project (opt_srcDir opts)))"
    and "symFile u = sf"
    and "\<not> symConfidence u < opt_confidence opts"
  shows "disk w' (getFilePath sf) \<noteq> None"
  using scanCommand_saves[OF assms(1,2,4,6)] assms(5) by simp

text \<open>
  In the small project \<^verbatim>\<open>dead.ts\<close> is archived as unreachable and removed, its function
  \<^verbatim>\<open>helper\<close> is archived, and after the run the file is on disk with its text.
\<close>

theorem applied_scan_leaves_deleted_file_on_disk_witness:
  "fst (scanCommand demoEnv demoProject demoOptions demoWorld) = Returned
   \<and> opt_apply demoOptions
   \<and> deadFile \<in> set (unreachableFiles demoProject demoOptions)
   \<and> helperSymbol \<in> set (unusedSymbols (scannedFiles demoProject (opt_srcDir demoOptions)))
   \<and> symFile helperSymbol = deadFile
   \<and> \<not> symConfidence helperSymbol < opt_confidence demoOptions
   \<and> disk (snd (scanCommand demoEnv demoProject demoOptions demoWorld)) (getFilePath deadFile)
       = Some ''function helper() {}''"
proof -
  have run: "scanCommand demoEnv demoProject demoOptions demoWorld
          = (Returned, snd (scanCommand demoEnv demoProject demoOptions demoWorld))"
    using demo_scan(1) by (metis prod.collapse)
  have a: "opt_apply demoOptions" by (simp add: demo_opts)
  have f: "deadFile \<in> set (unreachableFiles demoProject demoOptions)"
    by (simp add: demo_unreachable)
  have u: "helperSymbol \<in> set (unusedSymbols (scannedFiles demoProject (opt_srcDir demoOptions)))"
    by (simp add: demo_opts demo_scannedFiles demo_unused)
  have s: "symFile helperSymbol = deadFile" by (simp add: helperSymbol_def)
  have c: "\<not> symConfidence helperSymbol < opt_confidence demoOptions"
    by (simp add: helperSymbol_def demo_opts)
  show ?thesis
    using applied_scan_leaves_deleted_file_on_disk[OF run a f u s c] a f u s c demo_scan(1,3)
    by (simp add: demo_dead)
qed

text \<open>
  C8. The confidence values are constants. Every finding of the pass over the exported
  declarations (lines 124 to 141) has confidence 0.95; every finding of the pass over the
  descendants (lines 144 to 189: functions, classes, variables that are not exported, and
  methods) has confidence 0.9; and among the documents of a scan, a document of type
  \<^verbatim>\<open>file\<close> has confidence 0.98 and every other one 0.95 or 0.9.
\<close>

theorem confidence_constants:
  "(\<forall>u\<in>set (unusedExports sf). symConfidence u = 95 / 100)
   \<and> (\<forall>u\<in>set (unusedLocals sf). symConfidence u = 9 / 10)
   \<and> (scanCommand env project opts w = (r, w') \<longrightarrow>
        (\<forall>p\<in>set (persistedBy w w').
           (itemType (snd p) = File \<longrightarrow> confidence (snd p) = 98 / 100)
           \<and> (itemType (snd p) \<noteq> File \<longrightarrow>
                 confidence (snd p) = 95 / 100 \<or> confidence (snd p) = 9 / 10)))"
proof -
  have exported: "\<forall>u\<in>set (unusedExports sf). symConfidence u = 95 / 100"
    using in_unusedExports(2) by blast
  have locals: "\<forall>u\<in>set (unusedLocals sf). symConfidence u = 9 / 10"
    using in_unusedLocals(2) by blast
  have persisted: "(itemType (snd p) = File \<longrightarrow> confidence (snd p) = 98 / 100)
           \<and> (itemType (snd p) \<noteq> File \<longrightarrow>
                 confidence (snd p) = 95 / 100 \<or> confidence (snd p) = 9 / 10)"
    if run: "scanCommand env project opts w = (r, w')" and p: "p \<in> set (persistedBy w w')" for p
  proof -
  from persistedBy_scan[OF run] obtain fileDocs symDocs where docs:
    "persistedBy w w' = fileDocs @ symDocs"
    "fileItemsFrom env opts (scanRepo env) (scanCommit env) (scanTtl env w)
       (unreachableFiles project opts) (Suc (clockReads w)) fileDocs"
    "symbolItemsFrom env opts (scanRepo env) (scanCommit env) (scanTtl env w)
       (unusedSymbols (scannedFiles project (opt_srcDir opts))) (Suc (clockReads w)) symDocs"
    by blast
  from p docs(1) consider "p \<in> set fileDocs" | "p \<in> set symDocs" by auto
  then have "(itemType (snd p) = File \<and> confidence (snd p) = 98 / 100)
      \<or> (itemType (snd p) \<noteq> File
          \<and> (confidence (snd p) = 95 / 100 \<or> confidence (snd p) = 9 / 10))"
  proof cases
    case 1
    with docs(2) obtain sf k where
      "snd p = fileItem opts (scanRepo env) (scanCommit env) (scanTtl env w) (dateNow env k) sf"
      unfolding fileItemsFrom_def by blast
    then show ?thesis by (simp add: fileItem_def)
  next
    case 2
    with docs(3) obtain u k where u: "u \<in> set (unusedSymbols (scannedFiles project (opt_srcDir opts)))"
      "snd p = symbolItem opts (scanRepo env) (scanCommit env) (scanTtl env w) (dateNow env k) u"
      unfolding symbolItemsFrom_def by blast
    have "itemType (snd p) = symType u" "confidence (snd p) = symConfidence u"
      by (simp_all add: u(2) symbolItem_def)
    then show ?thesis using in_unusedSymbols(3,4)[OF u(1)] by simp
  qed
  then show ?thesis by auto
  qed
  show ?thesis using exported locals persisted by blast
qed

text \<open>
  The small project has one finding of each kind: the documents of its scan carry 0.98,
  0.95 and 0.9.
\<close>

theorem confidence_constants_witness:
  "exportedSymbol \<in> set (unusedExports indexFile) \<and> symConfidence exportedSymbol = 95 / 100
   \<and> helperSymbol \<in> set (unusedLocals deadFile) \<and> symConfidence helperSymbol = 9 / 10
   \<and> map (\<lambda>p. (itemType (snd p), confidence (snd p)))
        (persistedBy demoWorld (snd (scanCommand demoEnv demoProject demoOptions demoWorld)))
      = [(File, 98 / 100), (Function, 95 / 100), (Function, 9 / 10)]"
  using confidence_constants[of indexFile demoEnv demoProject demoOptions demoWorld Returned
      "snd (scanCommand demoEnv demoProject demoOptions demoWorld)"]
    confidence_constants[of deadFile demoEnv demoProject demoOptions demoWorld Returned
      "snd (scanCommand demoEnv demoProject demoOptions demoWorld)"]
  by (simp add: demo_findings demo_persisted fileItem_def symbolItem_def exportedSymbol_def
        helperSymbol_def)

text \<open>
  C9. The claim: for every id that does not resolve to a stored record, the literal
  \<^verbatim>\<open>nonexistent-id\<close> included, \<^verbatim>\<open>ck restore\<close> reports that the item was not found and exits
  with code 1 without crashing. The code does so for an id of twenty-four hexadecimal
  digits that is not in the store (\<open>restore_unknown_id\<close> above). For any other string
  \<^verbatim>\<open>new ObjectId(id)\<close> (line 284) throws before the lookup, nothing catches it, and the
  command ends with the exception: no message is printed and the world is as it was.
\<close>

theorem restore_malformed_id_throws:
  assumes "ropt_mongo ropts \<noteq> []" and "\<not> checkForHexRegExp idString"
  shows "restoreCommand env idString ropts w = (Threw BSONError, w)"
  using assms by (simp add: restoreCommand_def ObjectId_new_def)

theorem restore_malformed_id_throws_witness:
  "ropt_mongo demoRestore \<noteq> [] \<and> \<not> checkForHexRegExp ''nonexistent-id''
   \<and> restoreCommand demoEnv ''nonexistent-id'' demoRestore demoWorld
       = (Threw BSONError, demoWorld)"
proof -
  have m: "ropt_mongo demoRestore \<noteq> []" by (simp add: demoRestore_def)
  have h: "\<not> checkForHexRegExp ''nonexistent-id''" by (simp add: checkForHexRegExp_def)
  show ?thesis using restore_malformed_id_throws[OF m h, of demoEnv demoWorld] m h by simp
qed

end
